(* ===== verification/Prelude.thy ===== *)
theory Prelude
  imports Main "HOL-Library.Word"
begin

text \<open>
  Shared vocabulary of the development: machine integers and bytes, the outcome of a Rust call,
  stateful computations and their sequencing, big- and little-endian conversion, and the decimal
  and hexadecimal rendering used by error messages.

  A call returns \<open>Inr v\<close> (\<open>Ok(v)\<close> or a plain value) or \<open>Inl\<close> of a reason to stop: \<open>Err e\<close> is
  \<open>Err(e)\<close> travelling through the \<open>?\<close> operator, \<open>Panic\<close> is an unwinding panic (slice index out of
  range, \<open>expect\<close>, capacity overflow), and \<open>Blocked\<close> says that the call is still waiting for the
  outside world when the modelled environment has no further answer.  Arithmetic follows the
  release profile of \<open>Cargo.toml\<close> on a 64-bit target: \<open>usize\<close> is 64 bits wide and wraps.
\<close>

unbundle bit_operations_syntax

named_theorems prog_simps "evaluation of sequenced computations"
named_theorems prog_splits "case splits of sequenced computations"

section \<open>Machine integers\<close>

type_synonym byte = "8 word"
type_synonym u32 = "32 word"
type_synonym usize = "64 word"

abbreviation usize_limit :: nat where
  "usize_limit \<equiv> 2 ^ 64"

abbreviation isize_max :: nat where
  "isize_max \<equiv> 2 ^ 63 - 1"

definition checked_add :: "nat \<Rightarrow> nat \<Rightarrow> nat option" where
  \<comment> \<open>\<open>usize::checked_add\<close> on values that fit a \<open>usize\<close>.\<close>
  "checked_add a b = (if a + b < usize_limit then Some (a + b) else None)"

section \<open>Outcomes and stateful computations\<close>

datatype 'e stop = Err 'e | Panic | Blocked

type_synonym ('e, 'a) res = "'e stop + 'a"
type_synonym ('s, 'e, 'a) prog = "'s \<Rightarrow> ('e, 'a) res \<times> 's"

definition ret :: "'a \<Rightarrow> ('s, 'e, 'a) prog" where
  "ret a = (\<lambda>s. (Inr a, s))"

definition raise :: "'e \<Rightarrow> ('s, 'e, 'a) prog" where
  "raise e = (\<lambda>s. (Inl (Err e), s))"

definition lift_res :: "('e, 'a) res \<Rightarrow> ('s, 'e, 'a) prog" where
  "lift_res r = (\<lambda>s. (r, s))"

definition seq :: "('s, 'e, 'a) prog \<Rightarrow> ('a \<Rightarrow> ('s, 'e, 'b) prog) \<Rightarrow> ('s, 'e, 'b) prog" where
  \<comment> \<open>\<open>let x = m?; f(x)\<close>\<close>
  "seq m f = (\<lambda>s. case m s of (Inl e, t) \<Rightarrow> (Inl e, t) | (Inr a, t) \<Rightarrow> f a t)"

definition rbind :: "('e, 'a) res \<Rightarrow> ('a \<Rightarrow> ('e, 'b) res) \<Rightarrow> ('e, 'b) res" where
  \<comment> \<open>The same for calls without state.\<close>
  "rbind r f = (case r of Inl e \<Rightarrow> Inl e | Inr a \<Rightarrow> f a)"

definition ok_or :: "'e \<Rightarrow> 'a option \<Rightarrow> ('e, 'a) res" where
  \<comment> \<open>\<open>Option::ok_or\<close>\<close>
  "ok_or e x = (case x of None \<Rightarrow> Inl (Err e) | Some a \<Rightarrow> Inr a)"

definition map_err :: "('e \<Rightarrow> 'f) \<Rightarrow> ('e, 'a) res \<Rightarrow> ('f, 'a) res" where
  \<comment> \<open>\<open>Result::map_err\<close>, also the conversion done by the \<open>?\<close> operator.\<close>
  "map_err c r = map_sum (map_stop c) id r"

fun expect :: "('e, 'a) res \<Rightarrow> ('f, 'a) res" where
  \<comment> \<open>\<open>Result::expect\<close>: an \<open>Err\<close> becomes a panic.\<close>
  "expect (Inr a) = Inr a"
| "expect (Inl Blocked) = Inl Blocked"
| "expect (Inl (Err e)) = Inl Panic"
| "expect (Inl Panic) = Inl Panic"

lemma ret_apply [prog_simps, simp]: "ret a s = (Inr a, s)"
  by (simp add: ret_def)

lemma raise_apply [prog_simps, simp]: "raise e s = (Inl (Err e), s)"
  by (simp add: raise_def)

lemma lift_res_apply [prog_simps, simp]: "lift_res r s = (r, s)"
  by (simp add: lift_res_def)

lemma seq_Inr [prog_simps]: "m s = (Inr a, t) \<Longrightarrow> seq m f s = f a t"
  by (simp add: seq_def)

lemma seq_Inl [prog_simps]: "m s = (Inl e, t) \<Longrightarrow> seq m f s = (Inl e, t)"
  by (simp add: seq_def)

lemma seq_ret [simp]: "seq (ret a) f = f a"
  by (simp add: seq_def fun_eq_iff)

lemma seq_raise [simp]: "seq (raise e) f = raise e"
  by (simp add: seq_def fun_eq_iff)

lemma seq_lift_Inr [simp]: "seq (lift_res (Inr a)) f = f a"
  by (simp add: seq_def fun_eq_iff)

lemma seq_lift_Inl [simp]: "seq (lift_res (Inl e)) f = lift_res (Inl e)"
  by (simp add: seq_def fun_eq_iff)

lemma seq_assoc: "seq (seq m f) g = seq m (\<lambda>a. seq (f a) g)"
  by (auto simp: seq_def fun_eq_iff split: prod.splits sum.splits)

text \<open>The congruence rule lets a recursive definition use what its earlier steps returned.\<close>

lemma seq_cong [fundef_cong]:
  assumes "m s = m' s'" and "\<And>a t. m' s' = (Inr a, t) \<Longrightarrow> f a t = f' a t"
  shows "seq m f s = seq m' f' s'"
  using assms by (auto simp: seq_def split: prod.splits sum.splits)

lemma seq_eq_Inr:
  "seq m f s = (Inr b, u) \<longleftrightarrow> (\<exists>a t. m s = (Inr a, t) \<and> f a t = (Inr b, u))"
  by (auto simp: seq_def split: prod.splits sum.splits)

lemma seq_eq_Inl:
  "seq m f s = (Inl e, u) \<longleftrightarrow>
     m s = (Inl e, u) \<or> (\<exists>a t. m s = (Inr a, t) \<and> f a t = (Inl e, u))"
  by (auto simp: seq_def split: prod.splits sum.splits)

lemma seq_elim:
  assumes "seq m f s = (x, t)"
  obtains (stop) e where "m s = (Inl e, t)" "x = Inl e"
  | (go) a u where "m s = (Inr a, u)" "f a u = (x, t)"
  using assms by (auto simp: seq_def split: prod.splits sum.splits)

lemma rbind_simps [simp]:
  "rbind (Inr a) f = f a" "rbind (Inl e) f = Inl e"
  by (simp_all add: rbind_def)

lemma rbind_eq_Inr: "rbind r f = Inr b \<longleftrightarrow> (\<exists>a. r = Inr a \<and> f a = Inr b)"
  by (auto simp: rbind_def split: sum.splits)

lemma ok_or_simps [simp]:
  "ok_or e None = Inl (Err e)" "ok_or e (Some a) = Inr a"
  by (simp_all add: ok_or_def)

lemma ok_or_eq_Inr: "ok_or e x = Inr a \<longleftrightarrow> x = Some a"
  by (auto simp: ok_or_def split: option.splits)

lemma map_err_simps [simp]:
  "map_err c (Inr a) = Inr a" "map_err c (Inl e) = Inl (map_stop c e)"
  by (simp_all add: map_err_def)

lemma map_err_eq_Inr [simp]: "map_err c r = Inr a \<longleftrightarrow> r = Inr a"
  by (cases r) simp_all

lemma map_stop_Panic [simp]: "map_stop c e = Panic \<longleftrightarrow> e = Panic"
  by (cases e) simp_all

lemma map_stop_Blocked [simp]: "map_stop c e = Blocked \<longleftrightarrow> e = Blocked"
  by (cases e) simp_all

lemma map_err_Panic [simp]: "map_err c r = Inl Panic \<longleftrightarrow> r = Inl Panic"
  by (cases r) simp_all

lemma map_err_Blocked [simp]: "map_err c r = Inl Blocked \<longleftrightarrow> r = Inl Blocked"
  by (cases r) simp_all

lemma expect_eq_Inr [simp]: "expect r = Inr a \<longleftrightarrow> r = Inr a"
  by (cases r rule: expect.cases) auto

text \<open>Computations that cannot stop in a given way, whatever the state.\<close>

definition never :: "'e stop \<Rightarrow> ('s, 'e, 'a) prog \<Rightarrow> bool" where
  "never e m \<longleftrightarrow> (\<forall>s. fst (m s) \<noteq> Inl e)"

lemma never_run: "never e m \<Longrightarrow> m s \<noteq> (Inl e, t)"
  by (metis fst_conv never_def)

lemma never_ret: "never e (ret a)"
  by (simp add: never_def)

lemma never_raise: "never Panic (raise x)" "never Blocked (raise x)"
  by (simp_all add: never_def)

lemma never_lift_res: "r \<noteq> Inl e \<Longrightarrow> never e (lift_res r)"
  by (simp add: never_def)

lemma never_if: "never e m \<Longrightarrow> never e n \<Longrightarrow> never e (if b then m else n)"
  by simp

lemma never_option:
  "never e m \<Longrightarrow> (\<And>a. never e (f a)) \<Longrightarrow> never e (case x of None \<Rightarrow> m | Some a \<Rightarrow> f a)"
  by (cases x) simp_all

lemma never_seq: "never e m \<Longrightarrow> (\<And>a. never e (f a)) \<Longrightarrow> never e (seq m f)"
  by (auto simp: never_def seq_def split: prod.splits sum.splits) (metis fst_conv)

lemmas never_intros = never_ret never_raise never_if never_option never_seq

definition slice_get :: "'a list \<Rightarrow> nat \<Rightarrow> 'a option" where
  \<comment> \<open>\<open>slice::get\<close>\<close>
  "slice_get xs i = (if i < length xs then Some (xs ! i) else None)"

lemma slice_get_Some: "i < length xs \<Longrightarrow> slice_get xs i = Some (xs ! i)"
  by (simp add: slice_get_def)

section \<open>Bytes of a 32-bit integer\<close>

definition to_be32 :: "u32 \<Rightarrow> byte list" where
  \<comment> \<open>\<open>u32::to_be_bytes\<close>\<close>
  "to_be32 v = [ucast (drop_bit 24 v), ucast (drop_bit 16 v), ucast (drop_bit 8 v), ucast v]"

definition to_le32 :: "u32 \<Rightarrow> byte list" where
  \<comment> \<open>\<open>u32::to_le_bytes\<close>\<close>
  "to_le32 v = rev (to_be32 v)"

definition shift_in :: "u32 \<Rightarrow> byte \<Rightarrow> u32" where
  \<comment> \<open>\<open>(value << 8) | u32::from(byte)\<close>\<close>
  "shift_in v b = push_bit 8 v OR ucast b"

definition from_be32 :: "byte list \<Rightarrow> u32" where
  \<comment> \<open>\<open>u32::from_be_bytes\<close> on an array of four bytes.\<close>
  "from_be32 bs = foldl shift_in 0 bs"

definition from_le32 :: "byte list \<Rightarrow> u32" where
  \<comment> \<open>\<open>u32::from_le_bytes\<close> on an array of four bytes.\<close>
  "from_le32 bs = from_be32 (rev bs)"

lemma length_to_be32 [simp]: "length (to_be32 v) = 4"
  by (simp add: to_be32_def)

lemma length_to_le32 [simp]: "length (to_le32 v) = 4"
  by (simp add: to_le32_def)

lemma unat_shift_in: "unat (shift_in v b) = (unat v * 256 + unat b) mod 2 ^ 32"
proof -
  have "shift_in v b = push_bit 8 v + ucast b"
    unfolding shift_in_def
    by (rule disjunctive_add [symmetric]) (auto simp: bit_simps dest: bit_imp_le_length)
  moreover have "unat (ucast b :: u32) = unat b"
    using unsigned_less [of b, where 'a = nat]
    by (simp add: unsigned_ucast_eq take_bit_nat_eq_self_iff)
  ultimately show ?thesis
    by (simp add: push_bit_eq_mult unat_word_ariths mod_simps)
qed

lemma from_be32_to_be32 [simp]: "from_be32 (to_be32 v) = v"
proof (rule bit_word_eqI)
  fix n
  assume n: "n < LENGTH(32)"
  consider "n < 8" | "8 \<le> n" "n < 16" | "16 \<le> n" "n < 24" | "24 \<le> n"
    by linarith
  then show "bit (from_be32 (to_be32 v)) n = bit v n"
    using n by cases (auto simp: from_be32_def to_be32_def shift_in_def bit_simps)
qed

lemma from_le32_to_le32 [simp]: "from_le32 (to_le32 v) = v"
  by (simp add: from_le32_def to_le32_def)

end
