(* ===== verification/Text.thy ===== *)
theory Text
  imports Prelude
begin

text \<open>
  The part of Rust's text formatting and parsing the program relies on: \<open>{}\<close> and \<open>{:x}\<close> of an
  unsigned integer, \<open>str::parse::<usize>\<close> on ASCII digits, and \<open>str::as_bytes\<close>.  A \<open>str\<close> is
  modelled by its UTF-8 bytes, which is what a HOL \<open>string\<close> (a list of 8-bit characters) holds.
\<close>

definition str_bytes :: "string \<Rightarrow> byte list" where
  \<comment> \<open>\<open>str::as_bytes\<close>\<close>
  "str_bytes s = map of_char s"

definition bytes_str :: "byte list \<Rightarrow> string" where
  "bytes_str bs = map (\<lambda>b. char_of (unat b)) bs"

fun dec_string :: "nat \<Rightarrow> string" where
  "dec_string n =
     (if n < 10 then [char_of (48 + n)] else dec_string (n div 10) @ [char_of (48 + n mod 10)])"

definition hex_digit :: "nat \<Rightarrow> char" where
  "hex_digit d = (if d < 10 then char_of (48 + d) else char_of (87 + d))"

fun hex_string :: "nat \<Rightarrow> string" where
  "hex_string n =
     (if n < 16 then [hex_digit n] else hex_string (n div 16) @ [hex_digit (n mod 16)])"

declare dec_string.simps [simp del] hex_string.simps [simp del]

definition is_digit :: "char \<Rightarrow> bool" where
  \<comment> \<open>\<open>char::is_ascii_digit\<close>\<close>
  "is_digit c \<longleftrightarrow> 48 \<le> (of_char c :: nat) \<and> (of_char c :: nat) \<le> 57"

definition digits_value :: "nat \<Rightarrow> string \<Rightarrow> nat" where
  "digits_value a ds = foldl (\<lambda>n c. 10 * n + (of_char c - 48)) a ds"

definition parse_usize :: "string \<Rightarrow> nat option" where
  \<comment> \<open>\<open>str::parse::<usize>\<close> on a non-empty string of ASCII digits: \<open>None\<close> on overflow.\<close>
  "parse_usize ds = (let n = digits_value 0 ds in if n < usize_limit then Some n else None)"

lemma length_str_bytes [simp]: "length (str_bytes s) = length s"
  by (simp add: str_bytes_def)

lemma str_bytes_append [simp]: "str_bytes (s @ t) = str_bytes s @ str_bytes t"
  by (simp add: str_bytes_def)

lemma digits_value_simps [simp]:
  "digits_value a [] = a"
  "digits_value a (c # ds) = digits_value (10 * a + (of_char c - 48)) ds"
  by (simp_all add: digits_value_def)

lemma digits_value_append: "digits_value a (ds @ es) = digits_value (digits_value a ds) es"
  by (simp add: digits_value_def)

lemma of_char_digit: "d < 10 \<Longrightarrow> of_char (char_of (48 + d :: nat)) = (48 + d :: nat)"
  by simp

lemma dec_string_digits: "\<forall>c \<in> set (dec_string n). is_digit c"
proof (induction n rule: dec_string.induct)
  case (1 n)
  then show ?case
    by (subst dec_string.simps) (auto simp: is_digit_def of_char_digit)
qed

lemma dec_string_nonempty [simp]: "dec_string n \<noteq> []"
  by (subst dec_string.simps) simp

lemma digits_value_dec_string: "digits_value 0 (dec_string n) = n"
proof (induction n rule: dec_string.induct)
  case (1 n)
  then show ?case
    by (subst dec_string.simps) (auto simp: digits_value_append of_char_digit)
qed

text \<open>Rewriting that evaluates \<open>dec_string\<close> on numerals.\<close>

lemma decimal_chars:
  "char_of (48 :: nat) = CHR ''0''" "char_of (49 :: nat) = CHR ''1''"
  "char_of (50 :: nat) = CHR ''2''" "char_of (51 :: nat) = CHR ''3''"
  "char_of (52 :: nat) = CHR ''4''" "char_of (53 :: nat) = CHR ''5''"
  "char_of (54 :: nat) = CHR ''6''" "char_of (55 :: nat) = CHR ''7''"
  "char_of (56 :: nat) = CHR ''8''" "char_of (57 :: nat) = CHR ''9''"
  by (simp_all add: char_of_def bit_0)

lemma dec_string_steps:
  "n < 10 \<Longrightarrow> dec_string n = [char_of (48 + n)]"
  "\<not> n < 10 \<Longrightarrow> dec_string n = dec_string (n div 10) @ [char_of (48 + n mod 10)]"
  by (subst dec_string.simps, simp)+

lemmas dec_string_eval = dec_string_steps decimal_chars

lemma parse_usize_dec_string: "n < usize_limit \<Longrightarrow> parse_usize (dec_string n) = Some n"
  by (simp add: parse_usize_def digits_value_dec_string)

text \<open>
  \<open>String::from_utf8_lossy\<close>, as the standard library cuts its input: every maximal ill-formed prefix
  of a character becomes one replacement character (\<open>EF BF BD\<close>).
\<close>

definition utf8_at :: "byte list \<Rightarrow> nat \<Rightarrow> byte" where
  "utf8_at bs i = (if i < length bs then bs ! i else 0)"

definition is_cont :: "byte \<Rightarrow> bool" where
  "is_cont b \<longleftrightarrow> 0x80 \<le> b \<and> b \<le> 0xbf"

definition utf8_width :: "byte \<Rightarrow> nat" where
  "utf8_width b =
     (if b < 0x80 then 1
      else if 0xc2 \<le> b \<and> b \<le> 0xdf then 2
      else if 0xe0 \<le> b \<and> b \<le> 0xef then 3
      else if 0xf0 \<le> b \<and> b \<le> 0xf4 then 4
      else 0)"

definition utf8_second :: "byte \<Rightarrow> byte \<Rightarrow> bool" where
  \<comment> \<open>The second bytes allowed after a lead byte of three or four bytes.\<close>
  "utf8_second b c \<longleftrightarrow>
     (if b = 0xe0 then 0xa0 \<le> c \<and> c \<le> 0xbf
      else if b = 0xed then 0x80 \<le> c \<and> c \<le> 0x9f
      else if b = 0xf0 then 0x90 \<le> c \<and> c \<le> 0xbf
      else if b = 0xf4 then 0x80 \<le> c \<and> c \<le> 0x8f
      else is_cont c)"

definition utf8_chunk :: "byte list \<Rightarrow> nat + nat" where
  \<comment> \<open>The front of the input: \<open>Inr n\<close> is a character of \<open>n\<close> bytes, \<open>Inl n\<close> a maximal ill-formed
    prefix of \<open>n\<close> bytes.\<close>
  "utf8_chunk bs =
     (let b = utf8_at bs 0; w = utf8_width b in
      if w = 1 then Inr 1
      else if w = 2 then (if is_cont (utf8_at bs 1) then Inr 2 else Inl 1)
      else if w = 3 then
        (if \<not> utf8_second b (utf8_at bs 1) then Inl 1
         else if \<not> is_cont (utf8_at bs 2) then Inl 2 else Inr 3)
      else if w = 4 then
        (if \<not> utf8_second b (utf8_at bs 1) then Inl 1
         else if \<not> is_cont (utf8_at bs 2) then Inl 2
         else if \<not> is_cont (utf8_at bs 3) then Inl 3 else Inr 4)
      else Inl 1)"

lemma utf8_chunk_pos: "utf8_chunk bs = Inr n \<or> utf8_chunk bs = Inl n \<Longrightarrow> 0 < n"
  by (auto simp: utf8_chunk_def Let_def split: if_splits)

function utf8_lossy :: "byte list \<Rightarrow> byte list" where
  "utf8_lossy bs =
     (if bs = [] then []
      else case utf8_chunk bs of
        Inr n \<Rightarrow> take n bs @ utf8_lossy (drop n bs)
      | Inl n \<Rightarrow> [0xef, 0xbf, 0xbd] @ utf8_lossy (drop n bs))"
  by pat_completeness auto
termination
  by (relation "measure length") (auto intro!: diff_less intro: utf8_chunk_pos)

declare utf8_lossy.simps [simp del]

definition from_utf8_lossy :: "byte list \<Rightarrow> string" where
  \<comment> \<open>\<open>String::from_utf8_lossy\<close>\<close>
  "from_utf8_lossy bs = bytes_str (utf8_lossy bs)"

end
