(* ===== verification/Wire.thy ===== *)
theory Wire
  imports Text
begin

text \<open>
  The data of \<open>src/src/codec.rs\<close>: tags, errors, the arguments of the encoder and the values of the
  decoder, and the encoding of a single 32-bit integer.
\<close>

definition TAG_INT :: byte where "TAG_INT = 0x02"

definition TAG_STRING_U8 :: byte where "TAG_STRING_U8 = 0x55"

definition TAG_STRING_U16 :: byte where "TAG_STRING_U16 = 0x56"

definition TAG_STRING_U32 :: byte where "TAG_STRING_U32 = 0x57"

lemmas tag_defs = TAG_INT_def TAG_STRING_U8_def TAG_STRING_U16_def TAG_STRING_U32_def

text \<open>
  Every constructor carries the fields of its Rust variant, in order: \<open>StringOverflow valid
  capacity\<close> and \<open>StringLengthMismatch count valid padding\<close>.
\<close>

datatype codec_error =
    UnexpectedEof
  | BadIntTag byte
  | BadIntWidth byte
  | BadStringTag byte
  | StringOverflow nat nat
  | BadFormat char
  | MissingLength
  | MissingArgument
  | WrongArgument
  | TooManyArguments
  | StringLengthMismatch nat nat nat

definition escaped_char :: "char \<Rightarrow> string" where
  \<comment> \<open>\<open>{:?}\<close> of an ASCII \<open>char\<close>, without the quotes.\<close>
  "escaped_char c =
     (let n = of_char c :: nat; backslash = char_of (92 :: nat) in
      if n = 0 then [backslash, CHR ''0'']
      else if n = 9 then [backslash, CHR ''t'']
      else if n = 10 then [backslash, CHR ''n'']
      else if n = 13 then [backslash, CHR ''r'']
      else if n = 39 \<or> n = 92 then [backslash, c]
      else if 32 \<le> n \<and> n < 127 then [c]
      else [backslash] @ ''u{'' @ hex_string n @ ''}'')"

definition debug_char :: "char \<Rightarrow> string" where
  "debug_char c = [char_of (39 :: nat)] @ escaped_char c @ [char_of (39 :: nat)]"

definition hex_byte :: "byte \<Rightarrow> string" where
  \<comment> \<open>\<open>{:#04x}\<close>\<close>
  "hex_byte b = ''0x'' @ (if unat b < 16 then ''0'' else []) @ hex_string (unat b)"

fun fmt_codec_error :: "codec_error \<Rightarrow> string" where
  \<comment> \<open>The \<open>#[error(...)]\<close> attributes of \<open>CodecError\<close>.\<close>
  "fmt_codec_error UnexpectedEof = ''unexpected end of buffer while parsing''"
| "fmt_codec_error (BadIntTag b) = ''expected integer tag 0x02, got '' @ hex_byte b"
| "fmt_codec_error (BadIntWidth b) = ''unsupported integer width '' @ dec_string (unat b)"
| "fmt_codec_error (BadStringTag b) = ''expected string tag 0x55/0x56/0x57, got '' @ hex_byte b"
| "fmt_codec_error (StringOverflow valid capacity) =
     ''string of '' @ dec_string valid @ '' bytes exceeds capacity '' @ dec_string capacity"
| "fmt_codec_error (BadFormat c) = ''unknown format character '' @ debug_char c"
| "fmt_codec_error MissingLength = ''string specifier has no length''"
| "fmt_codec_error MissingArgument = ''not enough arguments for format string''"
| "fmt_codec_error WrongArgument = ''argument type does not match the format specifier''"
| "fmt_codec_error TooManyArguments = ''too many arguments supplied''"
| "fmt_codec_error (StringLengthMismatch count valid padding) =
     ''string length mismatch: count '' @ dec_string count @ '' != valid '' @ dec_string valid
       @ '' + padding '' @ dec_string padding"

datatype arg = ArgInt u32 | ArgBytes "byte list"

datatype codec_value = ValInt u32 | ValBytes "byte list"

fun as_int :: "codec_value \<Rightarrow> u32 option" where
  "as_int (ValInt v) = Some v"
| "as_int (ValBytes _) = None"

fun as_bytes :: "codec_value \<Rightarrow> byte list option" where
  "as_bytes (ValBytes v) = Some v"
| "as_bytes (ValInt _) = None"

fun debug_bytes :: "byte list \<Rightarrow> string" where
  "debug_bytes [] = []"
| "debug_bytes [b] = dec_string (unat b)"
| "debug_bytes (b # bs) = dec_string (unat b) @ '', '' @ debug_bytes bs"

fun fmt_value :: "codec_value \<Rightarrow> string" where
  "fmt_value (ValInt v) = ''0x'' @ hex_string (unat v)"
| "fmt_value (ValBytes v) = ''['' @ debug_bytes v @ '']''"

definition asn_int :: "u32 \<Rightarrow> byte list" where
  "asn_int v = [TAG_INT, 4] @ to_be32 v"

definition pack_u32 :: "u32 \<Rightarrow> byte list" where
  "pack_u32 v = asn_int v"

lemma length_asn_int [simp]: "length (asn_int v) = 6"
  by (simp add: asn_int_def)

lemma as_int_eq_Some [simp]: "as_int v = Some n \<longleftrightarrow> v = ValInt n"
  by (cases v) auto

lemma as_bytes_eq_Some [simp]: "as_bytes v = Some b \<longleftrightarrow> v = ValBytes b"
  by (cases v) auto

end
