(* ===== verification/Errors.thy ===== *)
theory Errors
  imports Wire
begin

text \<open>
  \<open>src/src/error.rs\<close>: the library's error type and the process exit codes.  An operating-system
  error is represented by its message.
\<close>

type_synonym io_error = string

datatype error =
    Io io_error
  | Codec codec_error
  | Protocol string
  | Config string
  | Timeout
  | AttachRefused
  | NoIp
  | InterfaceNotFound string
  | Netlink string
  | FccUnlock

fun exit_code :: "error \<Rightarrow> nat" where
  "exit_code AttachRefused = 2"
| "exit_code NoIp = 2"
| "exit_code _ = 1"

fun fmt_error :: "error \<Rightarrow> string" where
  \<comment> \<open>The \<open>#[error(...)]\<close> attributes of \<open>Error\<close>.\<close>
  "fmt_error (Io e) = ''I/O error: '' @ e"
| "fmt_error (Codec e) = ''codec error: '' @ fmt_codec_error e"
| "fmt_error (Protocol m) = ''protocol error: '' @ m"
| "fmt_error (Config m) = ''configuration error: '' @ m"
| "fmt_error Timeout = ''timed out waiting for the firmware to respond''"
| "fmt_error AttachRefused =
     ''the network refused the packet-data attach (wrong APN or no data allowance)''"
| "fmt_error NoIp = ''no IP address was assigned by the network within the timeout''"
| "fmt_error (InterfaceNotFound i) = ''network interface '' @ i @ '' does not exist''"
| "fmt_error (Netlink m) = ''netlink error: '' @ m"
| "fmt_error FccUnlock = ''FCC unlock failed''"

definition from_codec :: "(codec_error, 'a) res \<Rightarrow> (error, 'a) res" where
  \<comment> \<open>The \<open>#[from]\<close> conversion the \<open>?\<close> operator applies to a \<open>CodecError\<close>.\<close>
  "from_codec r = map_err Codec r"

lemma from_codec_simps [simp]:
  "from_codec (Inr a) = Inr a" "from_codec (Inl (Err e)) = Inl (Err (Codec e))"
  "from_codec (Inl Panic) = Inl Panic" "from_codec (Inl Blocked) = Inl Blocked"
  by (simp_all add: from_codec_def)

lemma from_codec_Inr [simp]: "from_codec r = Inr a \<longleftrightarrow> r = Inr a"
  by (simp add: from_codec_def)

end
