(* ===== verification/Decoder.thy ===== *)
theory Decoder
  imports Wire
begin

text \<open>
  The decoder of \<open>src/src/codec.rs\<close>: the \<open>Reader\<close> cursor with its \<open>take_*\<close> methods,
  \<open>decode_values\<close> and \<open>unpack\<close>.  A method that takes \<open>&mut self\<close> is a stateful computation over
  \<open>reader\<close>; the cursor an error leaves behind is part of its result.

  The locale \<open>decoder\<close> states what every method keeps of the cursor, and that what it returns
  depends only on the bytes it consumed; \<open>field_decoder\<close> adds that a field consumes at least one
  byte.  Both predicates are closed under sequencing, so the composite methods inherit them.
\<close>

section \<open>The cursor\<close>

record reader =
  rd_data :: "byte list"
  rd_pos :: nat

definition reader_new :: "byte list \<Rightarrow> reader" where
  "reader_new d = \<lparr>rd_data = d, rd_pos = 0\<rparr>"

definition is_empty :: "reader \<Rightarrow> bool" where
  "is_empty r \<longleftrightarrow> length (rd_data r) \<le> rd_pos r"

definition peek_u8 :: "(reader, codec_error, byte) prog" where
  "peek_u8 = (\<lambda>r.
     (ok_or UnexpectedEof
        (if rd_pos r < length (rd_data r) then Some (rd_data r ! rd_pos r) else None), r))"

definition take_u8 :: "(reader, codec_error, byte) prog" where
  "take_u8 = seq peek_u8 (\<lambda>byte r. (Inr byte, r\<lparr>rd_pos := rd_pos r + 1\<rparr>))"

definition take_bytes :: "nat \<Rightarrow> (reader, codec_error, byte list) prog" where
  \<comment> \<open>\<open>Reader::take\<close>\<close>
  "take_bytes n = (\<lambda>r.
     case checked_add (rd_pos r) n of
       None \<Rightarrow> (Inl (Err UnexpectedEof), r)
     | Some end_pos \<Rightarrow>
         if rd_pos r \<le> end_pos \<and> end_pos \<le> length (rd_data r)
         then (Inr (take (end_pos - rd_pos r) (drop (rd_pos r) (rd_data r))), r\<lparr>rd_pos := end_pos\<rparr>)
         else (Inl (Err UnexpectedEof), r))"

fun take_be :: "nat \<Rightarrow> u32 \<Rightarrow> (reader, codec_error, u32) prog" where
  \<comment> \<open>The \<open>for _ in 0..width\<close> loop of \<open>take_asn_int\<close>.\<close>
  "take_be 0 value = ret value"
| "take_be (Suc n) value = seq take_u8 (\<lambda>b. take_be n (shift_in value b))"

definition take_asn_int :: "(reader, codec_error, u32) prog" where
  "take_asn_int =
     seq take_u8 (\<lambda>tag.
     if tag \<noteq> TAG_INT then raise (BadIntTag tag) else
     seq take_u8 (\<lambda>width.
     if width = 0 \<or> width > 4 then raise (BadIntWidth width) else
     take_be (unat width) 0))"

fun take_le :: "nat \<Rightarrow> nat \<Rightarrow> usize \<Rightarrow> (reader, codec_error, usize) prog" where
  \<comment> \<open>The \<open>for i in 0..n\<close> loop of \<open>take_string\<close>, with \<open>n - i\<close> rounds to go; a shift by 64 bits or
    more is masked to its low six bits, as the release build does.\<close>
  "take_le 0 i value = ret value"
| "take_le (Suc n) i value =
     seq take_u8 (\<lambda>b. take_le n (Suc i) (value OR push_bit (i * 8 mod 64) (ucast b)))"

definition elem_size_of :: "byte \<Rightarrow> usize option" where
  "elem_size_of tag =
     (if tag = TAG_STRING_U8 then Some 1
      else if tag = TAG_STRING_U16 then Some 2
      else if tag = TAG_STRING_U32 then Some 4
      else None)"

definition take_length :: "(reader, codec_error, usize) prog" where
  \<comment> \<open>The element count: one byte below 128, or the number of bytes that follow.\<close>
  "take_length =
     seq take_u8 (\<lambda>b.
     let valid = ucast b :: usize in
     if valid AND 0x80 \<noteq> 0 then take_le (unat (valid AND 0x0f)) 0 0 else ret valid)"

definition take_string :: "(reader, codec_error, byte list) prog" where
  "take_string =
     seq take_u8 (\<lambda>tag.
     case elem_size_of tag of
       None \<Rightarrow> raise (BadStringTag tag)
     | Some elem_size \<Rightarrow>
         seq take_length (\<lambda>elements.
         let valid = elements * elem_size in
         seq take_asn_int (\<lambda>count32.
         seq take_asn_int (\<lambda>padding32.
         let count = ucast count32 :: usize; padding = ucast padding32 :: usize in
         if count \<noteq> 0 \<and> count \<noteq> valid + padding
         then raise (StringLengthMismatch (unat count) (unat valid) (unat padding)) else
         seq (take_bytes (unat valid)) (\<lambda>payload.
         seq (take_bytes (unat padding)) (\<lambda>_.
         ret payload))))))"

section \<open>What every method keeps of the cursor\<close>

definition same_window :: "byte list \<Rightarrow> nat \<Rightarrow> byte list \<Rightarrow> nat \<Rightarrow> nat \<Rightarrow> bool" where
  \<comment> \<open>The \<open>k\<close> bytes at \<open>p\<close> of \<open>d\<close> are the \<open>k\<close> bytes at \<open>q\<close> of \<open>e\<close>.\<close>
  "same_window d p e q k \<longleftrightarrow>
     p + k \<le> length d \<and> q + k \<le> length e \<and> take k (drop p d) = take k (drop q e)"

lemma same_window_split:
  "same_window d p e q (j + k) \<longleftrightarrow>
     same_window d p e q j \<and> same_window d (p + j) e (q + j) k"
  by (auto simp: same_window_def take_add add.commute add.left_commute)

lemma same_window_mono: "same_window d p e q k \<Longrightarrow> j \<le> k \<Longrightarrow> same_window d p e q j"
  by (metis same_window_split le_add_diff_inverse)

lemma same_window_0 [simp]: "same_window d p e q 0 \<longleftrightarrow> p \<le> length d \<and> q \<le> length e"
  by (simp add: same_window_def)

lemma same_window_1:
  "same_window d p e q (Suc 0) \<longleftrightarrow> p < length d \<and> q < length e \<and> d ! p = e ! q"
  by (auto simp: same_window_def take_Suc_conv_app_nth Suc_le_eq)

locale decoder =
  fixes dec :: "(reader, codec_error, 'a) prog"
  assumes keeps_data: "dec r = (x, r') \<Longrightarrow> rd_data r' = rd_data r"
    and forward: "dec r = (x, r') \<Longrightarrow> rd_pos r \<le> rd_pos r'"
    and in_bounds: "dec r = (x, r') \<Longrightarrow> rd_pos r \<le> length (rd_data r) \<Longrightarrow>
      rd_pos r' \<le> length (rd_data r)"
    and local: "dec r = (Inr a, r') \<Longrightarrow>
      same_window (rd_data r) (rd_pos r) e q (rd_pos r' - rd_pos r) \<Longrightarrow>
      length e \<le> isize_max \<Longrightarrow>
      dec \<lparr>rd_data = e, rd_pos = q\<rparr> =
        (Inr a, \<lparr>rd_data = e, rd_pos = q + (rd_pos r' - rd_pos r)\<rparr>)"
begin

lemma result_reader:
  assumes "dec r = (x, r')"
  shows "r' = \<lparr>rd_data = rd_data r, rd_pos = rd_pos r'\<rparr>"
  using keeps_data [OF assms] by simp

end

locale field_decoder = decoder +
  assumes progress: "dec r = (Inr a, r') \<Longrightarrow> rd_pos r < rd_pos r'"
begin

lemma shrinks:
  assumes "dec r = (Inr a, r')" and "\<not> is_empty r"
  shows "length (rd_data r') - rd_pos r' < length (rd_data r) - rd_pos r"
  using assms keeps_data [OF assms(1)] progress [OF assms(1)] by (auto simp: is_empty_def)

end

lemma decoder_ret: "decoder (ret a)"
  by unfold_locales (auto simp: same_window_def)

lemma decoder_raise: "decoder (raise e)"
  by unfold_locales auto

lemma decoder_if: "decoder m \<Longrightarrow> decoder n \<Longrightarrow> decoder (if b then m else n)"
  by simp

lemma peek_u8_eq:
  "peek_u8 r = (if rd_pos r < length (rd_data r) then Inr (rd_data r ! rd_pos r)
                else Inl (Err UnexpectedEof), r)"
  by (simp add: peek_u8_def)

lemma take_u8_eq:
  "take_u8 r =
     (if rd_pos r < length (rd_data r)
      then (Inr (rd_data r ! rd_pos r), r\<lparr>rd_pos := Suc (rd_pos r)\<rparr>)
      else (Inl (Err UnexpectedEof), r))"
  by (simp add: take_u8_def seq_def peek_u8_eq)

lemma field_decoder_take_u8: "field_decoder take_u8"
proof unfold_locales
  fix r a r' e q
  assume run: "take_u8 r = (Inr a, r')"
    and win: "same_window (rd_data r) (rd_pos r) e q (rd_pos r' - rd_pos r)"
  from run have "rd_pos r' - rd_pos r = Suc 0"
    by (auto simp: take_u8_eq split: if_splits)
  with run win show "take_u8 \<lparr>rd_data = e, rd_pos = q\<rparr> =
      (Inr a, \<lparr>rd_data = e, rd_pos = q + (rd_pos r' - rd_pos r)\<rparr>)"
    by (auto simp: take_u8_eq same_window_1 split: if_splits)
qed (auto simp: take_u8_eq split: if_splits)

lemma decoder_take_bytes: "decoder (take_bytes n)"
proof unfold_locales
  fix r a r' e q
  assume run: "take_bytes n r = (Inr a, r')"
    and win: "same_window (rd_data r) (rd_pos r) e q (rd_pos r' - rd_pos r)"
    and len: "length e \<le> isize_max"
  from run have "rd_pos r' = rd_pos r + n" "a = take n (drop (rd_pos r) (rd_data r))"
    by (auto simp: take_bytes_def checked_add_def split: if_splits)
  with win len show "take_bytes n \<lparr>rd_data = e, rd_pos = q\<rparr> =
      (Inr a, \<lparr>rd_data = e, rd_pos = q + (rd_pos r' - rd_pos r)\<rparr>)"
    by (auto simp: take_bytes_def checked_add_def same_window_def)
qed (auto simp: take_bytes_def checked_add_def split: if_splits)

lemma decoder_seq:
  assumes m: "decoder m" and f: "\<And>a. decoder (f a)"
  shows "decoder (seq m f)"
proof unfold_locales
  fix r x r'
  assume run: "seq m f r = (x, r')"
  consider (stop) e where "m r = (Inl e, r')" | (go) a t where "m r = (Inr a, t)" "f a t = (x, r')"
    using run by (elim seq_elim) auto
  note cases = this
  show data: "rd_data r' = rd_data r"
    using cases by cases (simp_all add: decoder.keeps_data [OF m] decoder.keeps_data [OF f])
  show "rd_pos r \<le> rd_pos r'"
    using cases
    by cases (auto dest: decoder.forward [OF m] decoder.forward [OF f] intro: order_trans)
  assume le: "rd_pos r \<le> length (rd_data r)"
  show "rd_pos r' \<le> length (rd_data r)"
    using cases
  proof cases
    case stop
    then show ?thesis using le by (rule decoder.in_bounds [OF m])
  next
    case go
    with le have "rd_pos t \<le> length (rd_data t)" "rd_data t = rd_data r"
      by (simp_all add: decoder.in_bounds [OF m] decoder.keeps_data [OF m])
    with decoder.in_bounds [OF f go(2)] show ?thesis by simp
  qed
next
  fix r b r' e q
  assume run: "seq m f r = (Inr b, r')"
    and win: "same_window (rd_data r) (rd_pos r) e q (rd_pos r' - rd_pos r)"
    and len: "length e \<le> isize_max"
  from run obtain a t where mt: "m r = (Inr a, t)" and ft: "f a t = (Inr b, r')"
    by (auto simp: seq_eq_Inr)
  have le: "rd_pos r \<le> rd_pos t" "rd_pos t \<le> rd_pos r'" and data: "rd_data t = rd_data r"
    using decoder.forward [OF m mt] decoder.forward [OF f ft] decoder.keeps_data [OF m mt] by auto
  define j k where "j = rd_pos t - rd_pos r" and "k = rd_pos r' - rd_pos t"
  have sum: "rd_pos r' - rd_pos r = j + k" "rd_pos r + j = rd_pos t" "q + j + k = q + (j + k)"
    using le by (simp_all add: j_def k_def)
  from win have "same_window (rd_data r) (rd_pos r) e q j"
    and "same_window (rd_data t) (rd_pos t) e (q + j) k"
    by (simp_all only: sum(1,2) data same_window_split)
  then show "seq m f \<lparr>rd_data = e, rd_pos = q\<rparr> =
      (Inr b, \<lparr>rd_data = e, rd_pos = q + (rd_pos r' - rd_pos r)\<rparr>)"
    using decoder.local [OF m mt _ len, of q] decoder.local [OF f ft _ len, of "q + j"]
    by (simp add: seq_Inr sum(1,3) flip: j_def k_def)
qed

lemma field_decoder_seq:
  assumes m: "field_decoder m" and f: "\<And>a. decoder (f a)"
  shows "field_decoder (seq m f)"
proof (rule field_decoder.intro)
  show "decoder (seq m f)"
    using m f by (intro decoder_seq) (auto simp: field_decoder_def)
  show "field_decoder_axioms (seq m f)"
  proof
    fix r b r'
    assume "seq m f r = (Inr b, r')"
    then obtain a t where "m r = (Inr a, t)" "f a t = (Inr b, r')"
      by (auto simp: seq_eq_Inr)
    then show "rd_pos r < rd_pos r'"
      using field_decoder.progress [OF m] decoder.forward [OF f] by (meson less_le_trans)
  qed
qed

lemmas decoder_take_u8 = field_decoder_take_u8 [THEN field_decoder.axioms(1)]

lemma decoder_take_be: "decoder (take_be n v)"
  by (induction n arbitrary: v) (auto intro: decoder_ret decoder_seq decoder_take_u8)

lemma decoder_take_le: "decoder (take_le n i v)"
  by (induction n arbitrary: i v) (auto intro: decoder_ret decoder_seq decoder_take_u8)

lemma field_decoder_take_asn_int: "field_decoder take_asn_int"
  unfolding take_asn_int_def
  by (intro field_decoder_seq decoder_seq decoder_if decoder_raise field_decoder_take_u8
      decoder_take_u8 decoder_take_be)

lemmas decoder_take_asn_int = field_decoder_take_asn_int [THEN field_decoder.axioms(1)]

lemma decoder_take_length: "decoder take_length"
  unfolding take_length_def Let_def
  by (intro decoder_seq decoder_if decoder_ret decoder_take_u8 decoder_take_le)

lemma decoder_option:
  assumes "decoder m" and "\<And>a. decoder (f a)"
  shows "decoder (case x of None \<Rightarrow> m | Some a \<Rightarrow> f a)"
  using assms by (cases x) simp_all

lemma field_decoder_take_string: "field_decoder take_string"
  unfolding take_string_def Let_def
  by (intro field_decoder_seq decoder_seq decoder_if decoder_raise decoder_ret decoder_option
      field_decoder_take_u8 decoder_take_length decoder_take_asn_int decoder_take_bytes)

lemmas decoder_take_string = field_decoder_take_string [THEN field_decoder.axioms(1)]

interpretation u8: field_decoder take_u8
  by (rule field_decoder_take_u8)

interpretation bytes: decoder "take_bytes n" for n
  by (rule decoder_take_bytes)

interpretation asn: field_decoder take_asn_int
  by (rule field_decoder_take_asn_int)

interpretation str: field_decoder take_string
  by (rule field_decoder_take_string)

section \<open>Decoding a payload\<close>

definition int_field :: "(reader, codec_error, codec_value) prog" where
  \<comment> \<open>\<open>Value::Int(reader.take_asn_int()?)\<close>\<close>
  "int_field = seq take_asn_int (\<lambda>v. ret (ValInt v))"

definition string_field :: "(reader, codec_error, codec_value) prog" where
  \<comment> \<open>\<open>Value::Bytes(reader.take_string()?)\<close>\<close>
  "string_field = seq take_string (\<lambda>v. ret (ValBytes v))"

definition any_field :: "(reader, codec_error, codec_value) prog" where
  \<comment> \<open>One round of the loop of \<open>decode_values\<close>.\<close>
  "any_field =
     seq peek_u8 (\<lambda>tag.
     if tag = TAG_INT then int_field
     else if tag = TAG_STRING_U8 \<or> tag = TAG_STRING_U16 \<or> tag = TAG_STRING_U32 then string_field
     else raise (BadStringTag tag))"

interpretation int_field: field_decoder int_field
  unfolding int_field_def by (intro field_decoder_seq field_decoder_take_asn_int decoder_ret)

interpretation string_field: field_decoder string_field
  unfolding string_field_def by (intro field_decoder_seq field_decoder_take_string decoder_ret)

lemma any_field_eq:
  "any_field r =
     (if length (rd_data r) \<le> rd_pos r then (Inl (Err UnexpectedEof), r)
      else let tag = rd_data r ! rd_pos r in
        if tag = TAG_INT then int_field r
        else if tag = TAG_STRING_U8 \<or> tag = TAG_STRING_U16 \<or> tag = TAG_STRING_U32
        then string_field r else (Inl (Err (BadStringTag tag)), r))"
  by (auto simp: any_field_def seq_def peek_u8_eq Let_def)

lemma field_decoder_any_field: "field_decoder any_field"
proof
  fix r :: reader and x r'
  assume run: "any_field r = (x, r')"
  then show "rd_data r' = rd_data r" "rd_pos r \<le> rd_pos r'"
    by (auto simp: any_field_eq Let_def split: if_splits
        dest: int_field.keeps_data string_field.keeps_data int_field.forward string_field.forward)
  assume "rd_pos r \<le> length (rd_data r)"
  with run show "rd_pos r' \<le> length (rd_data r)"
    by (auto simp: any_field_eq Let_def split: if_splits
        dest: int_field.in_bounds string_field.in_bounds)
next
  fix r :: reader and a r'
  assume run: "any_field r = (Inr a, r')"
  then show less: "rd_pos r < rd_pos r'"
    by (auto simp: any_field_eq Let_def split: if_splits
        dest: int_field.progress string_field.progress)
  fix e q
  assume win: "same_window (rd_data r) (rd_pos r) e q (rd_pos r' - rd_pos r)"
    and len: "length e \<le> isize_max"
  from less win have "same_window (rd_data r) (rd_pos r) e q (Suc 0)"
    by (auto elim: same_window_mono)
  then have "rd_pos r < length (rd_data r)" "q < length e" "rd_data r ! rd_pos r = e ! q"
    by (simp_all add: same_window_1)
  with run win len show "any_field \<lparr>rd_data = e, rd_pos = q\<rparr> =
      (Inr a, \<lparr>rd_data = e, rd_pos = q + (rd_pos r' - rd_pos r)\<rparr>)"
    by (auto simp: any_field_eq Let_def split: if_splits
        intro: int_field.local string_field.local)
qed

interpretation any: field_decoder any_field
  by (rule field_decoder_any_field)

function decode_loop :: "codec_value list \<Rightarrow> (reader, codec_error, codec_value list) prog" where
  "decode_loop out r =
     (if is_empty r then (Inr out, r)
      else seq any_field (\<lambda>v. decode_loop (out @ [v])) r)"
  by pat_completeness auto
termination
  by (relation "measure (\<lambda>(out, r). length (rd_data r) - rd_pos r)") (auto dest: any.shrinks)

declare decode_loop.simps [simp del]

definition decode_values :: "byte list \<Rightarrow> (codec_error, codec_value list) res" where
  "decode_values data = fst (decode_loop [] (reader_new data))"

fun unpack_loop :: "string \<Rightarrow> codec_value list \<Rightarrow> (reader, codec_error, codec_value list) prog" where
  "unpack_loop [] out = ret out"
| "unpack_loop (ch # fmt) out =
     (if ch = CHR ''n'' then seq int_field (\<lambda>v. unpack_loop fmt (out @ [v]))
      else if ch = CHR ''s'' then seq string_field (\<lambda>v. unpack_loop fmt (out @ [v]))
      else raise (BadFormat ch))"

definition unpack :: "string \<Rightarrow> byte list \<Rightarrow> (codec_error, codec_value list) res" where
  "unpack fmt data = fst (unpack_loop fmt [] (reader_new data))"

section \<open>The shape of what \<open>unpack\<close> returns\<close>

definition of_kind :: "char \<Rightarrow> codec_value \<Rightarrow> bool" where
  "of_kind c v \<longleftrightarrow>
     (c = CHR ''n'' \<and> (\<exists>n. v = ValInt n)) \<or> (c = CHR ''s'' \<and> (\<exists>b. v = ValBytes b))"

lemma unpack_loop_shape:
  "unpack_loop fmt out r = (Inr vs, r') \<Longrightarrow> \<exists>ws. vs = out @ ws \<and> list_all2 of_kind fmt ws"
proof (induction fmt arbitrary: out r)
  case Nil
  then show ?case by simp
next
  case (Cons ch fmt)
  from Cons.prems obtain v t where "of_kind ch v" "unpack_loop fmt (out @ [v]) t = (Inr vs, r')"
    by (auto simp: seq_eq_Inr int_field_def string_field_def of_kind_def split: if_splits)
  with Cons.IH [of "out @ [v]" t] show ?case by auto
qed

lemma unpack_shape: "unpack fmt data = Inr vs \<Longrightarrow> list_all2 of_kind fmt vs"
  unfolding unpack_def using unpack_loop_shape [of fmt "[]" "reader_new data" vs]
  by (metis append_Nil prod.collapse)

lemma unpack_kind_at:
  assumes "unpack fmt data = Inr vs" and "i < length fmt"
  shows "i < length vs" and "of_kind (fmt ! i) (vs ! i)"
  using unpack_shape [OF assms(1)] assms(2) by (auto simp: list_all2_conv_all_nth)

lemma of_kind_simps [simp]:
  "of_kind (CHR ''n'') v \<longleftrightarrow> (\<exists>n. v = ValInt n)"
  "of_kind (CHR ''s'') v \<longleftrightarrow> (\<exists>b. v = ValBytes b)"
  by (simp_all add: of_kind_def)

section \<open>What a value costs\<close>

fun value_weight :: "codec_value \<Rightarrow> nat" where
  \<comment> \<open>The bytes the shortest encoding of a value takes.\<close>
  "value_weight (ValInt _) = 3"
| "value_weight (ValBytes b) = 8 + length b"

lemma take_be_width: "take_be n v r = (Inr a, r') \<Longrightarrow> rd_pos r' = rd_pos r + n"
proof (induction n arbitrary: v r)
  case (Suc n)
  then show ?case by (fastforce simp: seq_eq_Inr take_u8_eq split: if_splits)
qed simp

lemma take_be_bound:
  "take_be n v r = (Inr a, r') \<Longrightarrow> unat v < 256 ^ k \<Longrightarrow> unat a < 256 ^ (n + k)"
proof (induction n arbitrary: v r k)
  case (Suc n)
  from Suc.prems(1) obtain b u where "take_be n (shift_in v b) u = (Inr a, r')"
    by (auto simp: seq_eq_Inr)
  moreover have "unat (shift_in v b) < 256 ^ Suc k"
  proof -
    have "unat b < 256" using unsigned_less [of b, where 'a = nat] by simp
    then have "unat v * 256 + unat b < 256 ^ Suc k" using Suc.prems(2) by simp
    then show ?thesis unfolding unat_shift_in by (rule le_less_trans [OF mod_less_eq_dividend])
  qed
  ultimately show ?case using Suc.IH [of "shift_in v b" u "Suc k"] by simp
qed simp

lemma take_asn_int_width:
  assumes "take_asn_int r = (Inr v, r')"
  obtains w where "1 \<le> w" "w \<le> 4" "rd_pos r' = rd_pos r + 2 + w" "unat v < 256 ^ w"
proof -
  define width u where "width = rd_data r ! Suc (rd_pos r)" and "u = r\<lparr>rd_pos := rd_pos r + 2\<rparr>"
  have w: "width \<noteq> 0" "\<not> width > 4" and be: "take_be (unat width) 0 u = (Inr v, r')"
    using assms
    by (auto simp: take_asn_int_def seq_eq_Inr take_u8_eq width_def u_def split: if_splits)
  have u: "rd_pos u = rd_pos r + 2" by (simp add: u_def)
  have "unat width \<noteq> 0" using w(1) by (simp add: unsigned_eq_0_iff)
  moreover have "unat width \<le> 4" using w(2) by (simp add: word_less_nat_alt)
  moreover have "unat v < 256 ^ unat width" using take_be_bound [OF be, of 0] by simp
  ultimately show thesis using that [of "unat width"] take_be_width [OF be] u by simp
qed

lemma take_string_width:
  assumes "take_string r = (Inr v, r')"
  shows "rd_pos r + 8 + length v \<le> rd_pos r'"
proof -
  from assms obtain tag a es n b p c q d g x where tag: "take_u8 r = (Inr tag, a)"
    and n: "take_length a = (Inr n, b)" and asn: "take_asn_int b = (Inr p, c)"
    and asn': "take_asn_int c = (Inr q, d)" and pay: "take_bytes (unat (n * es)) d = (Inr v, g)"
    and pad: "take_bytes (unat (ucast q :: usize)) g = (Inr x, r')"
    by (auto simp: take_string_def seq_eq_Inr Let_def split: if_splits option.splits)
  have "rd_pos a = rd_pos r + 1" using tag by (auto simp: take_u8_eq split: if_splits)
  moreover have "rd_pos a + 1 \<le> rd_pos b"
    using n by (auto simp: take_length_def seq_eq_Inr take_u8_eq Let_def
        split: if_splits dest!: decoder.forward [OF decoder_take_le])
  moreover have "rd_pos b + 3 \<le> rd_pos c" using asn by (auto elim: take_asn_int_width)
  moreover have "rd_pos c + 3 \<le> rd_pos d" using asn' by (auto elim: take_asn_int_width)
  moreover have "rd_pos d + length v \<le> rd_pos g"
    using pay by (auto simp: take_bytes_def checked_add_def split: if_splits)
  moreover have "rd_pos g \<le> rd_pos r'" using pad by (rule bytes.forward)
  ultimately show ?thesis by linarith
qed

lemma any_field_width:
  "any_field r = (Inr v, r') \<Longrightarrow> rd_pos r + value_weight v \<le> rd_pos r'"
  by (auto simp: any_field_eq int_field_def string_field_def seq_eq_Inr Let_def split: if_splits
      elim: take_asn_int_width dest: take_string_width)

lemma decode_loop_width:
  "decode_loop out r = (Inr vs, r') \<Longrightarrow> rd_pos r \<le> length (rd_data r) \<Longrightarrow>
   \<exists>ws. vs = out @ ws \<and> rd_pos r + sum_list (map value_weight ws) \<le> length (rd_data r)"
proof (induction out r rule: decode_loop.induct)
  case (1 out r)
  show ?case
  proof (cases "is_empty r")
    case True
    with 1 show ?thesis by (subst (asm) decode_loop.simps) simp
  next
    case False
    with "1.prems"(1) obtain v u where v: "any_field r = (Inr v, u)"
      and rest: "decode_loop (out @ [v]) u = (Inr vs, r')"
      by (subst (asm) decode_loop.simps) (auto simp: seq_eq_Inr)
    from "1.IH" [OF False v rest] any.in_bounds [OF v "1.prems"(2)] any.keeps_data [OF v]
    obtain ws where "vs = out @ v # ws"
      "rd_pos u + sum_list (map value_weight ws) \<le> length (rd_data r)"
      by auto
    with any_field_width [OF v] show ?thesis by (intro exI [of _ "v # ws"]) simp
  qed
qed

section \<open>No panic\<close>

definition clean :: "('s, 'e, 'a) prog \<Rightarrow> bool" where
  \<comment> \<open>Returns a value or an error, whatever the state.\<close>
  "clean m \<longleftrightarrow> never Panic m \<and> never Blocked m"

lemma clean_ret: "clean (ret a)" by (simp add: clean_def never_ret)
lemma clean_raise: "clean (raise e)" by (simp add: clean_def never_raise)
lemma clean_if: "clean m \<Longrightarrow> clean n \<Longrightarrow> clean (if b then m else n)" by simp
lemma clean_option:
  "clean m \<Longrightarrow> (\<And>a. clean (f a)) \<Longrightarrow> clean (case x of None \<Rightarrow> m | Some a \<Rightarrow> f a)"
  by (cases x) simp_all

lemma clean_seq: "clean m \<Longrightarrow> (\<And>a. clean (f a)) \<Longrightarrow> clean (seq m f)"
  by (auto simp: clean_def intro: never_seq)

lemma clean_fst: "clean m \<Longrightarrow> fst (m s) \<noteq> Inl Panic \<and> fst (m s) \<noteq> Inl Blocked"
  by (simp add: clean_def never_def)

lemma clean_take_u8: "clean take_u8" by (simp add: clean_def never_def take_u8_eq)
lemma clean_peek_u8: "clean peek_u8" by (simp add: clean_def never_def peek_u8_eq)
lemma clean_take_bytes: "clean (take_bytes n)"
  by (simp add: clean_def never_def take_bytes_def checked_add_def)

lemmas clean_intros = clean_ret clean_raise clean_if clean_option clean_seq clean_take_u8
  clean_peek_u8 clean_take_bytes

lemma clean_take_be: "clean (take_be n v)"
  by (induction n arbitrary: v) (auto intro: clean_intros)

lemma clean_take_le: "clean (take_le n i v)"
  by (induction n arbitrary: i v) (auto intro: clean_intros)

lemma clean_take_asn_int: "clean take_asn_int"
  unfolding take_asn_int_def by (intro clean_intros clean_take_be)

lemma clean_any_field: "clean any_field"
  unfolding any_field_def int_field_def string_field_def take_string_def take_length_def Let_def
  by (intro clean_intros clean_take_asn_int clean_take_le)

lemma decode_loop_clean:
  "fst (decode_loop out r) \<noteq> Inl Panic \<and> fst (decode_loop out r) \<noteq> Inl Blocked"
proof (induction out r rule: decode_loop.induct)
  case (1 out r)
  then show ?case
    using clean_fst [OF clean_any_field, of r]
    by (subst (1 2) decode_loop.simps) (auto simp: seq_def split: prod.splits sum.splits)
qed

lemma decode_values_clean: "decode_values data \<noteq> Inl Panic" "decode_values data \<noteq> Inl Blocked"
  using decode_loop_clean [of "[]" "reader_new data"] by (simp_all add: decode_values_def)

section \<open>Decoding a suffix\<close>

lemma decode_loop_local:
  "decode_loop out r = (Inr (out @ vs), r') \<Longrightarrow> rd_pos r \<le> length (rd_data r) \<Longrightarrow>
   drop (rd_pos r) (rd_data r) = drop q e \<Longrightarrow> q \<le> length e \<Longrightarrow> length e \<le> isize_max \<Longrightarrow>
   fst (decode_loop out' \<lparr>rd_data = e, rd_pos = q\<rparr>) = Inr (out' @ vs)"
proof (induction out r arbitrary: vs q out' rule: decode_loop.induct)
  case (1 out r)
  have len: "length (rd_data r) - rd_pos r = length e - q"
    using arg_cong [OF "1.prems"(3), of length] by simp
  then have empty: "is_empty \<lparr>rd_data = e, rd_pos = q\<rparr> \<longleftrightarrow> is_empty r"
    using "1.prems"(2,4) by (auto simp: is_empty_def)
  show ?case
  proof (cases "is_empty r")
    case True
    with "1.prems"(1) have "vs = []" by (subst (asm) decode_loop.simps) simp
    with True empty show ?thesis by (subst decode_loop.simps) simp
  next
    case False
    with "1.prems"(1) obtain v u where v: "any_field r = (Inr v, u)"
      and rest: "decode_loop (out @ [v]) u = (Inr (out @ vs), r')"
      by (subst (asm) decode_loop.simps) (auto simp: seq_eq_Inr)
    have data: "rd_data u = rd_data r" and pos: "rd_pos r \<le> rd_pos u"
      and bound: "rd_pos u \<le> length (rd_data r)"
      using any.keeps_data [OF v] any.forward [OF v] any.in_bounds [OF v "1.prems"(2)]
      by simp_all
    from rest obtain ws where vs: "vs = v # ws"
      using decode_loop_width [OF rest] bound data by auto
    define j where "j = rd_pos u - rd_pos r"
    have j: "rd_pos u = rd_pos r + j" "q + j \<le> length e"
      using pos bound len "1.prems"(2,4) by (simp_all add: j_def)
    have "drop j (drop (rd_pos r) (rd_data r)) = drop j (drop q e)"
      by (simp only: "1.prems"(3))
    then have suffix: "drop (rd_pos u) (rd_data u) = drop (q + j) e"
      by (simp add: j data add.commute)
    have win: "same_window (rd_data r) (rd_pos r) e q j"
      using "1.prems"(3) bound j by (simp add: same_window_def)
    have "any_field \<lparr>rd_data = e, rd_pos = q\<rparr> = (Inr v, \<lparr>rd_data = e, rd_pos = q + j\<rparr>)"
      using any.local [OF v win [unfolded j_def]] "1.prems"(5) by (simp add: j_def)
    moreover have "fst (decode_loop (out' @ [v]) \<lparr>rd_data = e, rd_pos = q + j\<rparr>) =
        Inr ((out' @ [v]) @ ws)"
      using "1.IH" [OF False v _ _ suffix j(2), of ws "out' @ [v]"] rest vs data bound "1.prems"(5)
      by simp
    ultimately show ?thesis
      using False empty vs by (subst decode_loop.simps) (simp add: seq_Inr)
  qed
qed

lemma decode_values_step:
  assumes "any_field (reader_new data) = (Inr v, u)"
    and "decode_values (drop (rd_pos u) data) = Inr vs" and "length data \<le> isize_max"
  shows "decode_values data = Inr (v # vs)"
proof -
  have ne: "\<not> is_empty (reader_new data)"
    using assms(1) by (auto simp: is_empty_def any_field_eq split: if_splits)
  have u: "rd_data u = data" "rd_pos u \<le> length data"
    using any.keeps_data [OF assms(1)] any.in_bounds [OF assms(1)] by (simp_all add: reader_new_def)
  let ?r = "reader_new (drop (rd_pos u) data)"
  obtain r' where "decode_loop [] ?r = (Inr ([] @ vs), r')"
    using assms(2) by (metis append_Nil decode_values_def prod.collapse)
  then have "fst (decode_loop [v] \<lparr>rd_data = data, rd_pos = rd_pos u\<rparr>) = Inr ([v] @ vs)"
    by (rule decode_loop_local) (use u assms(3) in \<open>simp_all add: reader_new_def\<close>)
  moreover have "u = \<lparr>rd_data = data, rd_pos = rd_pos u\<rparr>" using u(1) by simp
  ultimately show ?thesis
    using ne assms(1)
    by (simp add: decode_values_def decode_loop.simps [of "[]" "reader_new data"] seq_Inr)
qed

text \<open>An integer that needs all four bytes takes six, so what follows it decodes on its own.\<close>

lemma decode_values_drop_int:
  assumes run: "decode_values data = Inr (ValInt t # vs)" and t: "2 ^ 24 \<le> unat t"
    and len: "length data \<le> isize_max"
  shows "6 \<le> length data" and "decode_values (drop 6 data) = Inr vs"
proof -
  let ?r = "reader_new data"
  obtain r' where loop: "decode_loop [] ?r = (Inr (ValInt t # vs), r')"
    using run by (metis decode_values_def prod.collapse)
  then have ne: "\<not> is_empty ?r" by (subst (asm) decode_loop.simps) (auto split: if_splits)
  with loop obtain v u where v: "any_field ?r = (Inr v, u)"
    and rest: "decode_loop [v] u = (Inr (ValInt t # vs), r')"
    by (subst (asm) decode_loop.simps) (auto simp: seq_eq_Inr)
  have u: "rd_data u = data" "rd_pos u \<le> length data"
    using any.keeps_data [OF v] any.in_bounds [OF v] by (simp_all add: reader_new_def)
  have "v = ValInt t" using decode_loop_width [OF rest] u by auto
  with v have "take_asn_int ?r = (Inr t, u)"
    by (auto simp: any_field_eq int_field_def string_field_def seq_eq_Inr Let_def split: if_splits)
  then obtain w where w: "w \<le> 4" "rd_pos u = 2 + w" "unat t < 256 ^ w"
    by (auto simp: reader_new_def elim: take_asn_int_width)
  have "w = 4"
  proof (rule ccontr)
    assume "w \<noteq> 4"
    then have "(256 :: nat) ^ w \<le> 256 ^ 3" using w(1) by (intro power_increasing) auto
    with w(3) t show False by simp
  qed
  with w u show "6 \<le> length data" by simp
  then show "decode_values (drop 6 data) = Inr vs"
    using decode_loop_local [of "[v]" u vs r' 0 "drop 6 data" "[]"] rest u w \<open>w = 4\<close>
      \<open>v = ValInt t\<close> len
    by (simp add: decode_values_def reader_new_def)
qed

lemma clean_unpack_loop: "clean (unpack_loop fmt out)"
proof (induction fmt arbitrary: out)
  case Nil
  show ?case using clean_ret [of out] by (simp add: fun_eq_iff ret_def)
next
  case (Cons ch fmt)
  have "clean int_field" "clean string_field"
    unfolding int_field_def string_field_def take_string_def take_length_def Let_def
    by (intro clean_intros clean_take_asn_int clean_take_le)+
  then show ?case using Cons.IH by (simp add: clean_seq clean_raise)
qed

lemma unpack_clean: "unpack fmt data \<noteq> Inl Panic" "unpack fmt data \<noteq> Inl Blocked"
  using clean_fst [OF clean_unpack_loop] by (simp_all add: unpack_def)

end
