(* ===== verification/Tables.thy ===== *)
theory Tables
  imports Prelude "HOL-Library.Multiset"
begin

text \<open>
  What the identifier tables use of the standard library: \<open>Iterator::find_map\<close> and
  \<open>slice::binary_search_by_key\<close>.  The locale \<open>sorted_table\<close> is the contract of a table with
  strictly increasing keys, for which the binary search is a finite map.
\<close>

fun find_map :: "('a \<Rightarrow> 'b option) \<Rightarrow> 'a list \<Rightarrow> 'b option" where
  "find_map f [] = None"
| "find_map f (x # xs) = (case f x of Some y \<Rightarrow> Some y | None \<Rightarrow> find_map f xs)"

function search_loop :: "'k::linorder list \<Rightarrow> 'k \<Rightarrow> nat \<Rightarrow> nat \<Rightarrow> nat" where
  \<comment> \<open>The halving loop: \<open>size\<close> (here \<open>sz\<close>) candidates starting at \<open>base\<close>.\<close>
  "search_loop keys k sz base =
     (if sz > 1 then
        let half = sz div 2; mid = base + half in
        search_loop keys k (sz - half) (if keys ! mid > k then base else mid)
      else base)"
  by pat_completeness auto
termination
  by (relation "measure (\<lambda>(keys, k, sz, base). sz)") auto

declare search_loop.simps [simp del]

definition binary_search :: "'k::linorder list \<Rightarrow> 'k \<Rightarrow> nat + nat" where
  \<comment> \<open>\<open>Inr i\<close> is \<open>Ok(i)\<close>, \<open>Inl i\<close> is \<open>Err(i)\<close> with the insertion point.\<close>
  "binary_search keys k =
     (if keys = [] then Inl 0
      else let base = search_loop keys k (length keys) 0 in
        if keys ! base = k then Inr base
        else Inl (base + (if keys ! base < k then 1 else 0)))"

lemma search_loop_inv:
  assumes "sorted_wrt (<) keys" and "0 < sz" and "base + sz \<le> length keys"
    and "j < length keys" and "keys ! j = k" and "base \<le> j" and "j < base + sz"
  shows "search_loop keys k sz base = j"
  using assms
proof (induction keys k sz base rule: search_loop.induct)
  case (1 keys k sz base)
  show ?case
  proof (cases "sz > 1")
    case True
    let ?mid = "base + sz div 2"
    have mid: "?mid < length keys" using True "1.prems" by linarith
    have step: "search_loop keys k sz base =
        search_loop keys k (sz - sz div 2) (if keys ! ?mid > k then base else ?mid)"
      using True by (subst search_loop.simps) (simp add: Let_def)
    note IH = "1.IH" [OF True refl refl]
    show ?thesis
    proof (cases "keys ! ?mid > k")
      case gt: True
      have "j < ?mid"
      proof (rule ccontr)
        assume "\<not> j < ?mid"
        then have "keys ! ?mid \<le> keys ! j"
          using "1.prems" sorted_wrt_nth_less [of "(<)" keys ?mid j] by (cases "?mid = j") auto
        with gt "1.prems" show False by simp
      qed
      with gt "1.prems" show ?thesis
        unfolding step by (intro IH) auto
    next
      case le: False
      have "?mid \<le> j"
      proof (rule ccontr)
        assume "\<not> ?mid \<le> j"
        then have "keys ! j < keys ! ?mid"
          using "1.prems" mid sorted_wrt_nth_less [of "(<)" keys j ?mid] by auto
        with le "1.prems" show False by simp
      qed
      with le True "1.prems" show ?thesis
        unfolding step by (intro IH) auto
    qed
  next
    case False
    with "1.prems" show ?thesis by (subst search_loop.simps) auto
  qed
qed

lemma search_loop_in_range:
  "0 < sz \<Longrightarrow> base + sz \<le> n \<Longrightarrow> search_loop keys k sz base < n"
proof (induction keys k sz base rule: search_loop.induct)
  case (1 keys k sz base)
  then show ?case
    by (subst search_loop.simps) (auto simp: Let_def)
qed

locale sorted_table =
  fixes tab :: "('k::linorder \<times> 'v) list"
  assumes increasing: "sorted_wrt (<) (map fst tab)"
begin

lemma distinct_keys: "distinct (map fst tab)"
  using increasing by (simp add: strict_sorted_iff)

lemma search_hit:
  assumes "i < length tab" and "fst (tab ! i) = k"
  shows "binary_search (map fst tab) k = Inr i"
proof -
  have "search_loop (map fst tab) k (length tab) 0 = i"
    by (rule search_loop_inv [OF increasing]) (use assms in auto)
  with assms show ?thesis by (auto simp: binary_search_def Let_def)
qed

lemma search_sound:
  assumes "binary_search (map fst tab) k = Inr i"
  shows "i < length tab \<and> fst (tab ! i) = k"
  using assms search_loop_in_range [of "length tab" 0 "length tab" "map fst tab" k]
  by (auto simp: binary_search_def Let_def split: if_splits)

lemma search_map_of:
  "(case binary_search (map fst tab) k of Inl _ \<Rightarrow> None | Inr i \<Rightarrow> Some (snd (tab ! i))) = map_of tab k"
proof (cases "binary_search (map fst tab) k")
  case (Inl j)
  have "k \<notin> set (map fst tab)"
    using search_hit Inl by (force simp: in_set_conv_nth)
  then have "map_of tab k = None" by (simp add: map_of_eq_None_iff)
  with Inl show ?thesis by simp
next
  case (Inr i)
  then have "i < length tab" "fst (tab ! i) = k" using search_sound by auto
  then have "(k, snd (tab ! i)) \<in> set tab" by (metis nth_mem prod.collapse)
  with Inr distinct_keys show ?thesis by (simp add: map_of_eq_Some_iff)
qed

end

lemma find_map_by_fst:
  "find_map (\<lambda>(a, b). if a = x then Some (f b) else None) ps = map_option f (map_of ps x)"
  by (induction ps) auto

lemma find_map_by_snd:
  "find_map (\<lambda>(a, b). if b = x then Some a else None) ps = map_of (map prod.swap ps) x"
  by (induction ps) auto

end
