(* ===== verification/CallIds.thy ===== *)
theory CallIds
  imports Tables Text
begin

text \<open>
  \<open>src/src/call_ids.rs\<close>: the firmware call identifiers, their table and the two lookups, which
  scan the table from the front.
\<close>

datatype call_id_t = CallId u32

fun raw_id :: "call_id_t \<Rightarrow> u32" where
  "raw_id (CallId i) = i"

text \<open>The derived order of \<open>CallId\<close> is that of its wire value.\<close>

instantiation call_id_t :: linorder
begin

definition less_eq_call_id_t :: "call_id_t \<Rightarrow> call_id_t \<Rightarrow> bool" where
  "less_eq_call_id_t a b \<longleftrightarrow> raw_id a \<le> raw_id b"

definition less_call_id_t :: "call_id_t \<Rightarrow> call_id_t \<Rightarrow> bool" where
  "less_call_id_t a b \<longleftrightarrow> raw_id a < raw_id b"

instance
proof
  fix a b :: call_id_t
  show "a \<le> b \<Longrightarrow> b \<le> a \<Longrightarrow> a = b"
    by (cases a; cases b) (simp add: less_eq_call_id_t_def)
qed (auto simp: less_eq_call_id_t_def less_call_id_t_def)

end

lemma CallId_less [simp]: "CallId i < CallId j \<longleftrightarrow> i < j" "CallId i \<le> CallId j \<longleftrightarrow> i \<le> j"
  by (simp_all add: less_call_id_t_def less_eq_call_id_t_def)

definition CALL_IDS :: "(string \<times> u32) list" where
  "CALL_IDS =
    [(''UtaMsSimOpenReq'', 0x1),
     (''UtaMsSimApduCmdReq'', 0x2),
     (''UtaMsSimApplicationReq'', 0x4),
     (''UtaMsSimDecodeFcp'', 0x6),
     (''UtaMsSimPbReadEntryReq'', 0xd),
     (''UtaMsSimGenPinReq'', 0xf),
     (''UtaMsSimModifyLockReq'', 0x11),
     (''UtaMsSimTkProactiveCommandRsp'', 0x16),
     (''UtaMsSimTkEnvelopeCommandReq'', 0x17),
     (''UtaMsSimTkTerminalProfileReadReq'', 0x19),
     (''UtaMsSimTkRegisterHandler'', 0x1c),
     (''UtaMsSimTkDeregisterHandler'', 0x1d),
     (''UtaMsCpsSetModeReq'', 0x1f),
     (''UtaMsCpsSetStackModeConfiguration'', 0x20),
     (''UtaMsCpsSetSimModeConfiguration'', 0x21),
     (''UtaMsCpsReadImei'', 0x23),
     (''UtaMsCallCsInit'', 0x24),
     (''UtaMsCbsInit'', 0x25),
     (''UtaMsSsInit'', 0x26),
     (''UtaMsSsSendUssdReq'', 0x27),
     (''UtaMsSsRespondUssd'', 0x28),
     (''UtaMsSsAbort'', 0x29),
     (''UtaMsSmsInit'', 0x30),
     (''UtaMsSmsSendReq'', 0x31),
     (''UtaMsSmsSetMemoryAvailableReq'', 0x34),
     (''UtaMsSmsIncomingSmsAck'', 0x36),
     (''UtaMsSmsSimMsgCountReq'', 0x38),
     (''UtaMsCallPsInitialize'', 0x3a),
     (''UtaMsCallPsObtainPdpContextId'', 0x3b),
     (''UtaMsCallPsReleasePdpContextId'', 0x3c),
     (''UtaMsCallPsDefinePrimaryReq'', 0x3d),
     (''UtaMsCallPsUndefinePrimaryReq'', 0x3f),
     (''UtaMsCallPsGetPrimaryReq'', 0x41),
     (''UtaMsCallPsSetAuthenticationReq'', 0x43),
     (''UtaMsCallPsSetDnsReq'', 0x45),
     (''UtaMsCallPsGetNegotiatedDnsReq'', 0x47),
     (''UtaMsCallPsGetNegIpAddrReq'', 0x49),
     (''UtaMsCallPsActivateReq'', 0x4b),
     (''UtaMsCallPsDeactivateReq'', 0x4e),
     (''UtaMsCallPsConnectReq'', 0x51),
     (''UtaMsNetOpen'', 0x53),
     (''UtaMsNetSetRadioSignalReporting'', 0x54),
     (''UtaMsNetSingleShotRadioSignalReportingReq'', 0x55),
     (''UtaMsNetAttachReq'', 0x5c),
     (''UtaMsNetPsAttachReq'', 0x5d),
     (''UtaMsNetPsDetachReq'', 0x5e),
     (''UtaMsNetScanReq'', 0x5f),
     (''UtaMsNetScanAbort'', 0x60),
     (''UtaMsNetPowerDownReq'', 0x61),
     (''UtaMsNetExtScanReq'', 0x62),
     (''UtaMsNetSetFdConfigReq'', 0x6e),
     (''UtaMsNetGetFdConfigReq'', 0x71),
     (''UtaMsNetConfigureNetworkModeReq'', 0x73),
     (''UtaMsNetRatModeStatusReq'', 0x76),
     (''UtaNvmRead'', 0x79),
     (''UtaNvmWrite'', 0x7a),
     (''UtaNvmWriteCommit'', 0x7b),
     (''UtaSysGetInfo'', 0x7c),
     (''UtaRPCPSConnectSetupReq'', 0x7d),
     (''UtaRPCPsConnectToDatachannelReq'', 0x7e),
     (''UtaRPCPSConnectReleaseReq'', 0x7f),
     (''UtaMsNetDcSetVoiceDomainPreferenceConfigReq'', 0x80),
     (''UtaMsCallCsSetupVoiceCallReq'', 0x82),
     (''UtaMsCallCsReleaseCallReq'', 0x88),
     (''UtaMsCallCsAcceptCallReq'', 0x8d),
     (''UtaMsCallCsSwapCallsReq'', 0x90),
     (''UtaMsCallCsHoldCallReq'', 0x92),
     (''UtaMsCallCsRetrieveCallReq'', 0x94),
     (''UtaMsCallCsSplitMptyReq'', 0x96),
     (''UtaMsCallCsJoinCallsReq'', 0x98),
     (''UtaMsCallCsTransferCallsReq'', 0x9a),
     (''UtaMsCallCsStartDtmfReq'', 0x9c),
     (''UtaMsCallCsStopDtmfReq'', 0x9e),
     (''UtaMsCallCsSetUus1Info'', 0xa6),
     (''UtaMsCallCsSetTtyDeviceMode'', 0xa7),
     (''UtaMsCallCsGetTtyDeviceMode'', 0xa8),
     (''UtaMsCallMultimediaSetupCallReq'', 0xac),
     (''UtaMsCallMultimediaUpdateCallReq'', 0xad),
     (''UtaMsCpsSetSimModeReq'', 0xb0),
     (''UtaMsSsCallForwardReq'', 0xb2),
     (''UtaMsSsCallWaitingReq'', 0xb4),
     (''UtaMsSsCallBarringReq'', 0xb6),
     (''UtaMsSsIdentificationReq'', 0xb8),
     (''UtaMsSmsSetSendMoreMessagesStatus'', 0xba),
     (''UtaMsSmsDataDownloadReq'', 0xbb),
     (''UtaMsSmsDataDownloadAck'', 0xbd),
     (''UtaMsCallPsGetNegQosReq'', 0xbe),
     (''UtaMsCallPsGetTftReq'', 0xc0),
     (''UtaMsCallPsSetPcoReq'', 0xc2),
     (''UtaMsCallPsGetNwPcoReq'', 0xc4),
     (''UtaMsCallPsNwActivateAcceptReq'', 0xc7),
     (''UtaMsCallPsNwActivateRejectReq'', 0xc9),
     (''UtaMsCallPsSetDataPrefReq'', 0xcd),
     (''UtaMsCbsStartReq'', 0xcf),
     (''UtaMsCbsStopReq'', 0xd0),
     (''UtaMsCbsSetMsgFilter'', 0xd3),
     (''UtaMsCbsGetMsgFilter'', 0xd4),
     (''UtaMsCbsEtwsConfigReq'', 0xd6),
     (''UtaMsCbsEtwsStartReq'', 0xd8),
     (''UtaMsCbsEtwsStopReq'', 0xda),
     (''UtaMsCpsNvmWrite'', 0xde),
     (''UtaMsCpsNvmRead'', 0xdf),
     (''UtaMsNetConfigureRxDiversityDarp'', 0xe0),
     (''UtaMsNetLdrGetApnParameterList'', 0xe2),
     (''UtaMsNetTimeInfoReadReq'', 0xe3),
     (''UtaMsNetSetCsgConfigReq'', 0xe6),
     (''UtaMsNetBandStatusReq'', 0xe7),
     (''UtaMsNetGetExtendedRadioSignalInfoReq'', 0xec),
     (''UtaMsNetDetachReq'', 0xef),
     (''UtaMsNetSelectGprsClassReq'', 0xf1),
     (''UtaMsNetGetCsgConfigReq'', 0xf3),
     (''UtaMsNetCsServiceNotificationAccept'', 0xf4),
     (''UtaMsNetSingleShotFdReq'', 0xf9),
     (''UtaMsSimPbLocationReq'', 0xfb),
     (''UtaMsSimPbReadGasEntryReq'', 0xfd),
     (''UtaMsSimPbWriteEntryReq'', 0xff),
     (''UtaMsSimPbGetMetaInformationReq'', 0x101),
     (''UtaMsSimPbUsimPbSelectReq'', 0x103),
     (''UtaMsSimPbGetFreeRecordsReq'', 0x105),
     (''UtaMsSimCreateReadBinaryApdu'', 0x10a),
     (''UtaMsSimCreateUpdateBinaryApdu'', 0x10b),
     (''UtaMsSimAnalyseReadResult'', 0x10c),
     (''UtaMsSimSetFdnReq'', 0x10e),
     (''SetApScreenState'', 0x110),
     (''UtaIoCtl'', 0x111),
     (''UtaIdcApMsgSetReq'', 0x114),
     (''UtaIdcApMsgGetReq'', 0x115),
     (''UtaIdcEnbleReq'', 0x116),
     (''UtaIdcCwsMsgSetReq'', 0x119),
     (''UtaIdcCwsMsgGetReq'', 0x11a),
     (''UtaIdcSubscribeIndications'', 0x11c),
     (''UtaIdcUnsubscribeIndications'', 0x11d),
     (''UtaBootPrepareShutdownReq'', 0x11f),
     (''UtaBootShutdownReq'', 0x120),
     (''UtaRfMaxTxPwrSet2g'', 0x121),
     (''UtaRfMaxTxPwrSet3g'', 0x122),
     (''UtaRfMaxTxPwrSet4g'', 0x123),
     (''UtaFreqInfoActivateReq'', 0x128),
     (''UtaFreqInfoGetFreqInfoReq'', 0x129),
     (''UtaFreqInfoDeactivateReq'', 0x12a),
     (''UtaFreqInfoRegisterIndications'', 0x12b),
     (''UtaFreqInfoDeregisterIndications'', 0x12c),
     (''UtaModeSetReq'', 0x12f),
     (''UtaNvmFlushSync'', 0x130),
     (''UtaProdRegisterGtiCallbackFunc'', 0x132),
     (''UtaProdGtiCmdReq'', 0x133),
     (''UtaCellTimeStampReq'', 0x134),
     (''UtaMsSsLcsInit'', 0x136),
     (''UtaMsSsLcsMoLocationReq'', 0x137),
     (''UtaMsSsLcsMtlrNotificationRsp'', 0x139),
     (''UtaMsCpAssistanceDataInjectReq'', 0x13c),
     (''UtaMsCpResetAssistanceData'', 0x13d),
     (''UtaMsCpPosMeasurementReq'', 0x140),
     (''UtaMsCpPosMeasurementAbortReq'', 0x142),
     (''UtaMsCpPosEnableMeasurementReport'', 0x144),
     (''UtaMsCpPosDisableMeasurementReport'', 0x145),
     (''UtaMsSimTkInit'', 0x146),
     (''UtaMsSimTkExecSmsPpRsp'', 0x148),
     (''UtaMsSimTkExecSimInitiatedCallRsp'', 0x14a),
     (''UtaMsSimTkExecSsUssdRsp'', 0x14c),
     (''UtaMsSimTkExecDtmfRsp'', 0x14e),
     (''UtaMsSimTkStopDtmfReq'', 0x150),
     (''UtaMsSimTkRefreshConfirmRsp'', 0x152),
     (''UtaMsSimTkRefreshFcnRsp'', 0x154),
     (''UtaMsSimTkControlReq'', 0x155),
     (''UtaMsSimTkTerminalProfileDownloadReq'', 0x157),
     (''UtaMs3gpp2SmsSendReq'', 0x15a),
     (''UtaMs3gpp2SmsSubscribeIndications'', 0x15c),
     (''UtaMs3gpp2SmsUnsubscribeIndications'', 0x15d),
     (''RpcGetRemoteVerInfo'', 0x15e),
     (''UtaMsMetricsRegisterHandler'', 0x160),
     (''UtaMsMetricsDeregisterHandler'', 0x161),
     (''UtaMsMetricsSetOptions'', 0x162),
     (''UtaMsMetricsTrigger'', 0x163),
     (''UtaMsEmbmsInit'', 0x164),
     (''UtaMsEmbmsSetServiceReq'', 0x165),
     (''UtaMsEmbmsMbsfnAreaConfigReq'', 0x166),
     (''UtaMsEmbmsSessionConfigReq'', 0x167),
     (''UtaMsEmbmsSetInterestedTMGIListReq'', 0x168),
     (''UtaMsEmbmsSetInterestedSAIFreqReq'', 0x169),
     (''UtaImsSubscribeIndications'', 0x176),
     (''UtaImsUnsubscribeIndications'', 0x177),
     (''UtaImsGetFrameworkState'', 0x178),
     (''UtaRtcGetDatetime'', 0x179),
     (''UtaMsSimAnalyseSimApduResult'', 0x17a),
     (''UtaMsSimOpenChannelReq'', 0x17b),
     (''UtaMsSimCloseChannelReq'', 0x17d),
     (''UtaMsSimSetBdnReq'', 0x17f),
     (''UtaMsSetSimStackMappingReq'', 0x181),
     (''UtaMsGetSimStackMappingReq'', 0x183),
     (''UtaMsNetSetRadioSignalReportingConfiguration'', 0x188),
     (''UtaPCIeEnumerationextTout'', 0x189),
     (''UtaMsSimTkSetTerminalCapabilityReq'', 0x18a),
     (''UtaMsSimTkReadTerminalCapabilityReq'', 0x18c),
     (''CsiFccLockQueryReq'', 0x18e),
     (''CsiFccLockGenChallengeReq'', 0x190),
     (''CsiFccLockVerChallengeReq'', 0x192),
     (''UtaSensorOpenReq'', 0x194),
     (''UtaSensorCloseExt'', 0x197),
     (''UtaSensorStartExt'', 0x198),
     (''UtaSensorSetAlarmParamExt'', 0x199),
     (''UtaSensorSetSchedulerParamExt'', 0x19a),
     (''CsiSioIpFilterCntrlSetReq'', 0x19b),
     (''UtaMsAccCurrentFreqInfoReq'', 0x19d),
     (''CsiTrcAtCmndReq'', 0x1a0),
     (''UtaMsSimApduCmdExtReq'', 0x1a2),
     (''UtaMsNetGetPlmnNameInfoReq'', 0x1a4),
     (''UtaMsNetGetCountryListReq'', 0x1a7),
     (''UtaMsNetExtConfigureNetworkModeReq'', 0x1a9),
     (''UtaMsNetExtBandStatusReq'', 0x1ac),
     (''UtaMsCallPsAttachApnConfigReq'', 0x1af),
     (''CsiMsCallPsInitialize'', 0x1b1),
     (''UtaAudioEnableSource'', 0x1b2),
     (''UtaAudioDisableSource'', 0x1b3),
     (''UtaAudioConfigureDestinationExt'', 0x1b4),
     (''UtaAudioSetDestinationsForSource'', 0x1b5),
     (''UtaAudioSetVolumeForSource'', 0x1b6),
     (''UtaAudioSetMuteForSourceExt'', 0x1b7),
     (''UtaAudioSetVolumeForDestination'', 0x1b8),
     (''UtaAudioSetMuteForDestinationExt'', 0x1b9),
     (''UtaAudioConfigureSourceExt'', 0x1ba),
     (''UtaAudioSetDestinationsForSourceExt'', 0x1bb),
     (''UtaRPCScreenControlReq'', 0x1bc),
     (''UtaMsCallPsReadContextStatusReq'', 0x1bd),
     (''CsiMsSimAccessGetSimStateInfoReq'', 0x1bf),
     (''CsiMsNetGetRegistrationInfoReq'', 0x1c1),
     (''CsiSioIpFilterNewCntrlSetReq'', 0x1c3),
     (''CsiMsNetLdrGetApnPlmnParameterListReq'', 0x1c5),
     (''RPCGetAPIParamChangedBitmap'', 0x1c8)]"

definition call_id :: "string \<Rightarrow> call_id_t option" where
  "call_id name = find_map (\<lambda>(n, i). if n = name then Some (CallId i) else None) CALL_IDS"

definition call_name :: "u32 \<Rightarrow> string option" where
  "call_name r = find_map (\<lambda>(n, i). if i = r then Some n else None) CALL_IDS"

definition fmt_call_id :: "call_id_t \<Rightarrow> string" where
  \<comment> \<open>The \<open>Display\<close> instance: the firmware name, or the raw value in hexadecimal.\<close>
  "fmt_call_id c =
     (case call_name (raw_id c) of
        Some name \<Rightarrow> name
      | None \<Rightarrow> ''0x'' @ hex_string (unat (raw_id c)))"

section \<open>The table\<close>

lemma call_ids_increasing: "sorted_wrt (<) (map unat (map snd CALL_IDS))"
  unfolding successively_conv_sorted_wrt [OF transp_on_less, symmetric]
  by (simp add: CALL_IDS_def)

interpretation calls: sorted_table "map prod.swap CALL_IDS"
  using call_ids_increasing
  by unfold_locales (simp add: sorted_wrt_map word_less_nat_alt case_prod_unfold comp_def)

lemma call_ids_sorted: "sorted_wrt (<) (map (CallId \<circ> snd) CALL_IDS)"
  using calls.increasing by (simp add: sorted_wrt_map comp_def)

lemma call_name_map_of: "call_name r = map_of (map prod.swap CALL_IDS) r"
  by (simp add: call_name_def find_map_by_snd)

lemma call_id_map_of: "call_id n = map_option CallId (map_of CALL_IDS n)"
  by (simp add: call_id_def find_map_by_fst)

lemma call_name_iff: "call_name r = Some n \<longleftrightarrow> (n, r) \<in> set CALL_IDS"
  using calls.distinct_keys by (force simp: call_name_map_of map_of_eq_Some_iff)

text \<open>No two entries have the same name. A number computed from each name tells them apart.\<close>

fun name_key :: "nat \<Rightarrow> string \<Rightarrow> nat" where
  "name_key a [] = a"
| "name_key a (c # cs) = name_key ((2 * a + of_char c) mod 65521) cs"

lemma call_names_distinct: "distinct (map fst CALL_IDS)"
proof -
  have "distinct (map (name_key 0) (map fst CALL_IDS))"
    by (simp only: CALL_IDS_def list.map fst_conv) simp
  then show ?thesis unfolding distinct_map [of "name_key 0"] by (rule conjunct1)
qed

lemma call_id_iff: "call_id n = Some c \<longleftrightarrow> (n, raw_id c) \<in> set CALL_IDS"
  using call_names_distinct by (cases c) (auto simp: call_id_map_of map_of_eq_Some_iff)

section \<open>Properties\<close>

text \<open>C38: The two lookups of the call table are inverse to each other: a name has the code \<open>c\<close> exactly
  when it is the name of \<open>c\<close>, and that is the case exactly for the entries of the table; \<open>Display\<close>
  writes an entry's code as its name, and a code without an entry in hexadecimal.\<close>

theorem call_id_round_trip:
  "(call_id n = Some c \<longleftrightarrow> (n, raw_id c) \<in> set CALL_IDS) \<and>
   (call_name (raw_id c) = Some n \<longleftrightarrow> (n, raw_id c) \<in> set CALL_IDS) \<and>
   (if \<exists>m. call_id m = Some c then call_id (fmt_call_id c) = Some c
    else fmt_call_id c = ''0x'' @ hex_string (unat (raw_id c)))"
proof (cases "call_name (raw_id c)")
  case None
  then have "fmt_call_id c = ''0x'' @ hex_string (unat (raw_id c))" by (simp add: fmt_call_id_def)
  with None show ?thesis using call_name_iff [of "raw_id c"] by (auto simp: call_id_iff)
next
  case (Some m)
  then have "fmt_call_id c = m" by (simp add: fmt_call_id_def)
  with Some show ?thesis by (auto simp: call_id_iff call_name_iff)
qed

theorem call_id_round_trip_witness:
  "call_id ''UtaMsSmsInit'' = Some (CallId 0x30) \<and> call_name 0x30 = Some ''UtaMsSmsInit'' \<and>
   fmt_call_id (CallId 0x30) = ''UtaMsSmsInit''"
proof -
  have hit: "call_id ''UtaMsSmsInit'' = Some (CallId 0x30)"
    by (simp add: call_id_def CALL_IDS_def)
  with call_id_round_trip [of "''UtaMsSmsInit''" "CallId 0x30"]
  have "call_name 0x30 = Some ''UtaMsSmsInit''" by simp
  with hit show ?thesis by (simp add: fmt_call_id_def)
qed

end
