(* ===== verification/Unsolicited.thy ===== *)
theory Unsolicited
  imports Tables
begin

text \<open>
  \<open>src/src/unsolicited.rs\<close>: the unsolicited indications, sorted by code, and their lookup by
  binary search.
\<close>

definition UTA_MS_NET_IS_ATTACH_ALLOWED_IND_CB :: u32 where
  "UTA_MS_NET_IS_ATTACH_ALLOWED_IND_CB = 0x06c"

definition UTA_MODE_SET_RSP_CB :: u32 where
  "UTA_MODE_SET_RSP_CB = 0x12d"

definition UNSOLICITED :: "(u32 \<times> string) list" where
  "UNSOLICITED =
    [(0x003, ''UtaMsSimApduCmdRspCb''),
     (0x005, ''UtaMsSimApplicationRspCb''),
     (0x007, ''UtaMsSimInfoIndCb''),
     (0x008, ''UtaMsSimInitIndCb''),
     (0x009, ''UtaMsSimFullAccessIndCb''),
     (0x00a, ''UtaMsSimErrorIndCb''),
     (0x00b, ''UtaMsSimCardIndCb''),
     (0x00c, ''UtaMsSimApplicationIndCb''),
     (0x00e, ''UtaMsSimPbReadEntryRspCb''),
     (0x010, ''UtaMsSimGenPinRspCb''),
     (0x012, ''UtaMsSimModifyLockRspCb''),
     (0x013, ''UtaMsSimLockStatusIndCb''),
     (0x014, ''UtaMsSimTkMoSmsControlInfoIndCb''),
     (0x015, ''UtaMsSimTkProactiveCommandIndCb''),
     (0x018, ''UtaMsSimTkEnvelopeResIndCb''),
     (0x01a, ''UtaMsSimTkTerminalProfileReadRspCb''),
     (0x01b, ''UtaSimTkProactiveCommandHandlerFunc''),
     (0x01e, ''UtaMsCpsSetModeRsp''),
     (0x022, ''UtaMsCpsSetModeIndCb''),
     (0x02a, ''UtaMsSsNetworkErrorIndCb''),
     (0x02b, ''UtaMsSsNetworkRejectIndCb''),
     (0x02c, ''UtaMsSsNetworkGsmCauseIndCb''),
     (0x02d, ''UtaMsSsUssdRspCb''),
     (0x02e, ''UtaMsSsUssdIndCb''),
     (0x02f, ''UtaMsSsEndIndCb''),
     (0x032, ''UtaMsSmsIncomingIndCb''),
     (0x033, ''UtaMsSmsSendRspCb''),
     (0x035, ''UtaMsSmsSetMemoryAvailableRspCb''),
     (0x037, ''UtaMsSmsSimMsgCacheFinishedIndCb''),
     (0x039, ''UtaMsSmsSimMsgCountRspCb''),
     (0x03e, ''UtaMsCallPsDefinePrimaryRspCb''),
     (0x040, ''UtaMsCallPsUndefinePrimaryRspCb''),
     (0x042, ''UtaMsCallPsGetPrimaryRspCb''),
     (0x044, ''UtaMsCallPsSetAuthenticationRspCb''),
     (0x046, ''UtaMsCallPsSetDnsRspCb''),
     (0x048, ''UtaMsCallPsGetNegotiatedDnsRspCb''),
     (0x04a, ''UtaMsCallPsGetNegIpAddrRspCb''),
     (0x04c, ''UtaMsCallPsActivateRspCb''),
     (0x04d, ''UtaMsCallPsActivateStatusIndCb''),
     (0x04f, ''UtaMsCallPsDeactivateRspCb''),
     (0x050, ''UtaMsCallPsDeactivateIndCb''),
     (0x052, ''UtaMsCallPsConnectRspCb''),
     (0x056, ''UtaMsNetSingleShotRadioSignalReportingRspCb''),
     (0x057, ''UtaMsNetCellInfoIndCb''),
     (0x058, ''UtaMsNetConnectionInfoIndCb''),
     (0x059, ''UtaMsNetHspaInfoIndCb''),
     (0x05a, ''UtaMsNetRadioSignalIndCb''),
     (0x05b, ''UtaMsNetCellChangeIndCb''),
     (0x063, ''UtaMsNetAttachRspCb''),
     (0x064, ''UtaMsNetPsAttachRspCb''),
     (0x065, ''UtaMsNetPsDetachRspCb''),
     (0x066, ''UtaMsNetScanRspCb''),
     (0x067, ''UtaMsNetPowerDownRspCb''),
     (0x068, ''UtaMsNetExtScanRspCb''),
     (0x069, ''UtaMsNetPsAttachIndCb''),
     (0x06a, ''UtaMsNetPsDetachIndCb''),
     (0x06b, ''UtaMsNetRegistrationInfoIndCb''),
     (0x06c, ''UtaMsNetIsAttachAllowedIndCb''),
     (0x06d, ''UtaMsNetGprsClassIndCb''),
     (0x06f, ''UtaMsNetSetFdConfigRspCb''),
     (0x070, ''UtaMsNetFdConfigIndCb''),
     (0x072, ''UtaMsNetGetFdConfigRspCb''),
     (0x074, ''UtaMsNetConfigureNetworkModeRspCb''),
     (0x075, ''UtaMsNetNetworkModeChangeIndCb''),
     (0x077, ''UtaMsNetRatModeStatusRspCb''),
     (0x078, ''UtaMsNetRatModeStatusIndCb''),
     (0x081, ''UtaMsNetDcSetVoiceDomainPreferenceConfigRspCb''),
     (0x083, ''UtaMsCallCsSetupCallRspCb''),
     (0x084, ''UtaMsCallCsDialingIndCb''),
     (0x085, ''UtaMsCallCsAlertingIndCb''),
     (0x086, ''UtaMsCallCsCtmInfoIndCb''),
     (0x087, ''UtaMsCallCsConnectedIndCb''),
     (0x089, ''UtaMsCallCsReleaseCallRspCb''),
     (0x08a, ''UtaMsCallCsDisconnectingIndCb''),
     (0x08b, ''UtaMsCallCsDisconnectedIndCb''),
     (0x08c, ''UtaMsCallCsIncomingCallIndCb''),
     (0x08e, ''UtaMsCallCsAcceptCallRspCb''),
     (0x08f, ''UtaMsCallCsProgressIndCb''),
     (0x091, ''UtaMsCallCsSwapCallsRspCb''),
     (0x093, ''UtaMsCallCsHoldCallRspCb''),
     (0x095, ''UtaMsCallCsRetrieveCallRspCb''),
     (0x097, ''UtaMsCallCsSplitMptyRspCb''),
     (0x099, ''UtaMsCallCsJoinCallsRspCb''),
     (0x09b, ''UtaMsCallCsTransferCallsRspCb''),
     (0x09d, ''UtaMsCallCsStartDtmfRspCb''),
     (0x09f, ''UtaMsCallCsStopDtmfRspCb''),
     (0x0a0, ''UtaMsCallCsStopDtmfExtRspCb''),
     (0x0a1, ''UtaMsCallCsNotificationIndCb''),
     (0x0a2, ''UtaMsCallCsCugInfoIndCb''),
     (0x0a3, ''UtaMsCallCsCallingNameInfoIndCb''),
     (0x0a4, ''UtaMsCallCsEmergencyNumberListIndCb''),
     (0x0a5, ''UtaMsCallCsCallStatusIndCb''),
     (0x0a9, ''UtaCallMultimediaGetMediaProfilesInfoRspCb''),
     (0x0aa, ''UtaMsCallMultimediaSetupCallRspCb''),
     (0x0ab, ''UtaMsCallMultimediaUpdateCallRspCb''),
     (0x0ae, ''UtaMsCallCsVoimsSrvccHoStatusIndCb''),
     (0x0af, ''UtaMsCpsSetSimModeRsp''),
     (0x0b1, ''UtaMsCpsStartupIndCb''),
     (0x0b3, ''UtaMsSsCallForwardRspCb''),
     (0x0b5, ''UtaMsSsCallWaitingRspCb''),
     (0x0b7, ''UtaMsSsCallBarringRspCb''),
     (0x0b9, ''UtaMsSsIdentificationRspCb''),
     (0x0bc, ''UtaMsSmsDataDownloadRspCb''),
     (0x0bf, ''UtaMsCallPsGetNegQosRspCb''),
     (0x0c1, ''UtaMsCallPsGetTftRspCb''),
     (0x0c3, ''UtaMsCallPsSetPcoRspCb''),
     (0x0c5, ''UtaMsCallPsGetNwPcoRspCb''),
     (0x0c6, ''UtaMsCallPsNwActivateIndCb''),
     (0x0c8, ''UtaMsCallPsNwActivateAcceptRspCb''),
     (0x0ca, ''UtaMsCallPsModifyIndCb''),
     (0x0cb, ''UtaMsCallPsSuspendIndCb''),
     (0x0cc, ''UtaMsCallPsResumeIndCb''),
     (0x0ce, ''UtaMsCallPsSetDataPrefRspCb''),
     (0x0d1, ''UtaMsCbsStartRspCb''),
     (0x0d2, ''UtaMsCbsStopRspCb''),
     (0x0d5, ''UtaMsCbsNewMessageIndCb''),
     (0x0d7, ''UtaMsCbsEtwsConfigRspCb''),
     (0x0d9, ''UtaMsCbsEtwsStartRspCb''),
     (0x0db, ''UtaMsCbsEtwsStopRspCb''),
     (0x0dc, ''UtaMsCbsEtwsNotifyPrimaryWarningInd''),
     (0x0dd, ''UtaMsCbsEtwsNotifySecondaryWarningInd''),
     (0x0e1, ''UtaMsNetConfigureRxDiversityDarpIndCb''),
     (0x0e4, ''UtaMsNetTimeInfoReadRspCb''),
     (0x0e5, ''UtaMsNetTimeInfoIndCb''),
     (0x0e8, ''UtaMsNetBandStatusRspCb''),
     (0x0e9, ''UtaMsNetBandStatusIndCb''),
     (0x0ea, ''UtaMsNetSetCsgConfigRspCb''),
     (0x0eb, ''UtaMsNetGetCsgConfigRspCb''),
     (0x0ed, ''UtaMsNetGetExtendedRadioSignalInfoRspCb''),
     (0x0ee, ''UtaMsNetNitzInfoIndCb''),
     (0x0f0, ''UtaMsNetDetachRspCb''),
     (0x0f2, ''UtaMsNetSelectGprsClassRspCb''),
     (0x0f5, ''UtaMsNetNetworkFeatureSupportInfoIndCb''),
     (0x0f6, ''UtaMsNetEpsNetworkFeatureSupportInfoIndCb''),
     (0x0f7, ''UtaMsNetCsServiceNotificationIndCb''),
     (0x0f8, ''UtaMsNetDualSimServiceIndCb''),
     (0x0fa, ''UtaMsNetSingleShotFdRspCb''),
     (0x0fc, ''UtaMsSimPbGetLocationRspCb''),
     (0x0fe, ''UtaMsSimPbReadGasEntryRspCb''),
     (0x100, ''UtaMsSimPbWriteEntryRspCb''),
     (0x102, ''UtaMsSimPbGetMetaInformationRspCb''),
     (0x104, ''UtaMsSimPbUsimPbSelectRspCb''),
     (0x106, ''UtaMsSimPbGetFreeRecordsRspCb''),
     (0x107, ''UtaMsSimPbUsimPbReadyIndCb''),
     (0x108, ''UtaMsSimPbCacheLoadFinishedIndCb''),
     (0x109, ''UtaMsSimPbCacheLoadIndCb''),
     (0x10d, ''UtaMsSimGenPinIndCb''),
     (0x10f, ''UtaMsSimFdnStateIndCb''),
     (0x112, ''UtaIdcApMsgSetRspCb''),
     (0x113, ''UtaIdcApMsgGetRspCb''),
     (0x117, ''UtaIdcCwsMsgSetRspCb''),
     (0x118, ''UtaIdcCwsMsgGetRspCb''),
     (0x11b, ''UtaIdcCwsMsgIndCb''),
     (0x11e, ''UtaBootPrepareShutdownRspCb''),
     (0x124, ''UtaFreqInfoActivateRspCb''),
     (0x125, ''UtaFreqInfoDeactivateRspCb''),
     (0x126, ''UtaFreqInfoGetFreqInfoRspCb''),
     (0x127, ''UtaFreqInfoIndicationCb''),
     (0x12d, ''UtaModeSetRspCb''),
     (0x12e, ''UtaModeStartupIndCb''),
     (0x131, ''UtaProdGtiCmdRspCb''),
     (0x135, ''UtaCellTimeStampRspCb''),
     (0x138, ''UtaMsSsLcsMoLocationRspCb''),
     (0x13a, ''UtaMsSsLcsCapabilitiesIndCb''),
     (0x13b, ''UtaMsCpAssistanceDataInjectRspCb''),
     (0x13e, ''UtaMsCpAssistanceDataNeededIndCb''),
     (0x13f, ''UtaMsCpPosMeasurementRspCb''),
     (0x141, ''UtaMsCpPosMeasurementAbortRspCb''),
     (0x143, ''UtaMsCpPosReportMeasurementIndCb''),
     (0x147, ''UtaMsSimTkExecSmsPpIndCb''),
     (0x149, ''UtaMsSimTkExecSimInitiatedCallIndCb''),
     (0x14b, ''UtaMsSimTkExecSsUssdIndCb''),
     (0x14d, ''UtaMsSimTkExecDtmfIndCb''),
     (0x14f, ''UtaMsSimTkExecDtmfEndIndCb''),
     (0x151, ''UtaMsSimTkRefreshConfirmIndCb''),
     (0x153, ''UtaMsSimTkRefreshFcnIndCb''),
     (0x156, ''UtaMsSimTkControlRspCb''),
     (0x158, ''UtaMsSimTkTerminalProfileDownloadRspCb''),
     (0x159, ''UtaMs3gpp2SmsSendRspCb''),
     (0x15b, ''UtaMs3gpp2SmsIncomingIndCb''),
     (0x15f, ''UtaMetricsHandlerFunction''),
     (0x16a, ''UtaMsEmbmsSetServiceRspCb''),
     (0x16b, ''UtaMsEmbmsMbsfnAreaConfigRspCb''),
     (0x16c, ''UtaMsEmbmsSessionConfigRspCb''),
     (0x16d, ''UtaMsEmbmsSetInterestedTMGIListRspCb''),
     (0x16e, ''UtaMsEmbmsSetInterestedSAIFreqRspCb''),
     (0x16f, ''UtaMsEmbmsServiceIndCb''),
     (0x170, ''UtaMsEmbmsMBSFNAreaIndCb''),
     (0x171, ''UtaMsEmbmsServicesListIndCb''),
     (0x172, ''UtaMsEmbmsSAIListIndCb''),
     (0x173, ''UtaMsEmbmsMpsInfoIndCb''),
     (0x174, ''UtaImsStateChangedIndCb''),
     (0x175, ''UtaImsServiceStateChangedIndCb''),
     (0x17c, ''UtaMsSimOpenChannelRspCb''),
     (0x17e, ''UtaMsSimCloseChannelRspCb''),
     (0x180, ''UtaMsSimBdnStateIndCb''),
     (0x182, ''UtaMsSetSimStackMappingRspCb''),
     (0x184, ''UtaMsGetSimStackMappingRspCb''),
     (0x185, ''UtaMsSimMccMncIndCb''),
     (0x186, ''UtaMsSimTkTerminalResponseIndCb''),
     (0x187, ''UtaMsNetRegisteredPlmnNameIndCb''),
     (0x18b, ''UtaMsSimTkSetTerminalCapabilityRspCb''),
     (0x18d, ''UtaMsSimTkReadTerminalCapabilityRspCb''),
     (0x18f, ''CsiFccLockQueryRspCb''),
     (0x191, ''CsiFccLockGenChallengeRspCb''),
     (0x193, ''CsiFccLockVerChallengeRspCb''),
     (0x195, ''UtaSensorOpenRspCb''),
     (0x196, ''UtaSensorMeasIndCb''),
     (0x19c, ''CsiSioIpFilterCntrlSetRspCb''),
     (0x19e, ''UtaMsAccCurrentFreqInfoRspCb''),
     (0x19f, ''UtaMsAccCurrentFreqInfoIndCb''),
     (0x1a1, ''CsiTrcAtCmndRspCb''),
     (0x1a3, ''UtaMsSimApduCmdExtRspCb''),
     (0x1a5, ''UtaMsNetGetPlmnNameInfoRspCb''),
     (0x1a6, ''UtaMsNetSib8TimeInfoIndCb''),
     (0x1a8, ''UtaMsNetGetCountryListRspCb''),
     (0x1aa, ''UtaMsNetExtConfigureNetworkModeRspCb''),
     (0x1ab, ''UtaMsNetExtNetworkModeChangeIndCb''),
     (0x1ad, ''UtaMsNetExtBandStatusRspCb''),
     (0x1ae, ''UtaMsNetExtBandStatusIndCb''),
     (0x1b0, ''UtaMsCallPsAttachApnConfigRspCb''),
     (0x1be, ''UtaMsCallPsReadContextStatusRspCb''),
     (0x1c0, ''CsiMsSimAccessGetSimStateInfoRspCb''),
     (0x1c2, ''CsiMsNetGetRegistrationInfoRspCb''),
     (0x1c4, ''CsiSioIpFilterNewCntrlSetRspCb''),
     (0x1c6, ''CsiMsNetLdrGetApnPlmnParameterListRspCb''),
     (0x1c7, ''UtaMsNetLdrApnParametersChangeIndCb'')]"

definition unsolicited_name :: "u32 \<Rightarrow> string option" where
  "unsolicited_name code =
     (case binary_search (map fst UNSOLICITED) code of
        Inl _ \<Rightarrow> None
      | Inr i \<Rightarrow> Some (snd (UNSOLICITED ! i)))"

lemma unsolicited_increasing: "sorted_wrt (<) (map unat (map fst UNSOLICITED))"
  unfolding successively_conv_sorted_wrt [OF transp_on_less, symmetric]
  by (simp add: UNSOLICITED_def)

interpretation indications: sorted_table UNSOLICITED
  using unsolicited_increasing
  by unfold_locales (simp add: sorted_wrt_map word_less_nat_alt)

section \<open>Properties\<close>

text \<open>C39: The binary search of \<open>unsolicited_name\<close> is a plain lookup: it finds every code of the table,
  with the name listed for it, and no other code.\<close>

theorem unsolicited_name_lookup: "unsolicited_name code = map_of UNSOLICITED code"
  unfolding unsolicited_name_def by (rule indications.search_map_of)

end
