(* ===== verification/Transport.thy ===== *)
theory Transport
  imports Errors Decoder CallIds Unsolicited
begin

text \<open>
  \<open>src/src/transport.rs\<close>: framing, message classification and request/response correlation over the
  RPC control port.

  The state \<open>sys\<close> holds the \<open>Rpc\<close> struct (\<open>rpc_path\<close>, \<open>inbuf\<close>, \<open>attach_allowed\<close>) and what the
  operating system will answer: the reading of the monotonic clock at each call, and one queue of
  answers per kind of system call.  \<open>os_calls\<close> records every call made, in order.  A call whose
  queue is empty is \<open>Blocked\<close>: it has not returned in the modelled run.  Instants and durations are
  nanoseconds.  Log output (\<open>tracing\<close>) is not modelled.
\<close>

section \<open>The operating system\<close>

datatype poll_answer = PollFailed io_error | PollReady nat

datatype os_call =
    OsOpen string
  | OsClose
  | OsWrite "byte list"
  | OsPoll nat
  | OsRead
  | OsSleep nat

record sys =
  os_clock :: "nat \<Rightarrow> nat"
  os_ticks :: nat
  os_polls :: "poll_answer list"
  os_reads :: "(io_error + byte list) list"
  os_writes :: "io_error option list"
  os_opens :: "io_error option list"
  os_calls :: "os_call list"
  rpc_path :: string
  inbuf :: "byte list"
  attach_allowed :: bool

type_synonym 'a port = "(sys, error, 'a) prog"

definition READ_BUF_LEN :: nat where
  "READ_BUF_LEN = 128 * 1024"

definition MAX_MESSAGE_LEN :: nat where
  "MAX_MESSAGE_LEN = 1024 * 1024"

definition log_call :: "os_call \<Rightarrow> sys \<Rightarrow> sys" where
  "log_call c s = s\<lparr>os_calls := os_calls s @ [c]\<rparr>"

definition nanos :: "nat \<Rightarrow> nat" where
  \<comment> \<open>\<open>Duration::from_secs\<close>\<close>
  "nanos secs = secs * 1000000000"

definition RESPONSE_TIMEOUT :: nat where
  "RESPONSE_TIMEOUT = nanos 30"

definition instant_now :: "nat port" where
  "instant_now = (\<lambda>s. (Inr (os_clock s (os_ticks s)), s\<lparr>os_ticks := os_ticks s + 1\<rparr>))"

definition instant_add :: "nat \<Rightarrow> nat \<Rightarrow> ('e, nat) res" where
  \<comment> \<open>\<open>Instant + Duration\<close> panics when the seconds no longer fit an \<open>i64\<close>.\<close>
  "instant_add t d = (if (t + d) div nanos 1 \<le> 2 ^ 63 - 1 then Inr (t + d) else Inl Panic)"

definition write_all :: "byte list \<Rightarrow> unit port" where
  "write_all bs = (\<lambda>s.
     let s = log_call (OsWrite bs) s in
     case os_writes s of
       [] \<Rightarrow> (Inl Blocked, s)
     | None # ws \<Rightarrow> (Inr (), s\<lparr>os_writes := ws\<rparr>)
     | Some e # ws \<Rightarrow> (Inl (Err (Io e)), s\<lparr>os_writes := ws\<rparr>))"

definition read_chunk :: "byte list port" where
  \<comment> \<open>\<open>File::read\<close> into a buffer of \<open>READ_BUF_LEN\<close> bytes; what does not fit stays in the kernel.\<close>
  "read_chunk = (\<lambda>s.
     let s = log_call OsRead s in
     case os_reads s of
       [] \<Rightarrow> (Inl Blocked, s)
     | Inl e # rs \<Rightarrow> (Inl (Err (Io e)), s\<lparr>os_reads := rs\<rparr>)
     | Inr bs # rs \<Rightarrow>
         (Inr (take READ_BUF_LEN bs),
          s\<lparr>os_reads := (if length bs \<le> READ_BUF_LEN then rs
                         else Inr (drop READ_BUF_LEN bs) # rs)\<rparr>))"

definition poll_port :: "nat \<Rightarrow> poll_answer port" where
  "poll_port timeout_ms = (\<lambda>s.
     let s = log_call (OsPoll timeout_ms) s in
     case os_polls s of
       [] \<Rightarrow> (Inl Blocked, s)
     | p # ps \<Rightarrow> (Inr p, s\<lparr>os_polls := ps\<rparr>))"

definition open_port :: "string \<Rightarrow> unit port" where
  "open_port path = (\<lambda>s.
     let s = log_call (OsOpen path) s in
     case os_opens s of
       [] \<Rightarrow> (Inl Blocked, s)
     | None # os \<Rightarrow> (Inr (), s\<lparr>os_opens := os\<rparr>)
     | Some e # os \<Rightarrow> (Inl (Err (Io e)), s\<lparr>os_opens := os\<rparr>))"

definition sleep_for :: "nat \<Rightarrow> unit port" where
  \<comment> \<open>\<open>thread::sleep\<close>\<close>
  "sleep_for d = (\<lambda>s. (Inr (), log_call (OsSleep d) s))"

section \<open>Messages\<close>

datatype mode = Sync | Async

datatype message_kind = Response | AsyncAck | UnsolicitedInd

record message =
  msg_tid :: u32
  msg_kind :: message_kind
  msg_code :: u32
  msg_body :: "byte list"
  msg_content :: "codec_value list"

definition TXID_SYNC :: u32 where "TXID_SYNC = 0x11000100"

definition TXID_ASYNC :: u32 where "TXID_ASYNC = 0x11000101"

definition classify ::
    "u32 \<Rightarrow> u32 \<Rightarrow> byte list \<Rightarrow> codec_value list \<Rightarrow> (error, message) res" where
  \<comment> \<open>The \<open>let (kind, body) = \<dots>\<close> of \<open>Message::parse\<close>; \<open>content.remove(0)\<close> and \<open>body_full[6..]\<close>
    panic out of range.\<close>
  "classify t c body_full content =
     (if t = TXID_SYNC then
        Inr \<lparr>msg_tid = t, msg_kind = Response, msg_code = c, msg_body = body_full,
             msg_content = content\<rparr>
      else if t AND 0xffffff00 = TXID_SYNC then
        if c \<ge> 2000 then
          Inr \<lparr>msg_tid = t, msg_kind = AsyncAck, msg_code = c,
               msg_body = body_full, msg_content = content\<rparr>
        else if Option.bind (slice_get content 0) as_int \<noteq> Some t then
          Inl (Err (Protocol (''async response is missing the echoed id 0x'' @ hex_string (unat t))))
        else if content = [] \<or> length body_full < 6 then Inl Panic
        else Inr \<lparr>msg_tid = t, msg_kind = Response, msg_code = c,
                  msg_body = drop 6 body_full, msg_content = tl content\<rparr>
      else Inr \<lparr>msg_tid = t, msg_kind = UnsolicitedInd, msg_code = c,
                msg_body = body_full, msg_content = content\<rparr>)"

definition parse :: "byte list \<Rightarrow> (error, message) res" where
  "parse raw =
     (if length raw < 20
      then Inl (Err (Protocol (''message too short: '' @ dec_string (length raw) @ '' bytes'')))
      else
        rbind (from_codec (fst (seq take_asn_int (\<lambda>len_asn. take_asn_int) (reader_new (drop 4 raw)))))
          (\<lambda>c.
        let t = from_be32 (take 4 (drop 16 raw)); body_full = drop 20 raw in
        rbind (from_codec (decode_values body_full)) (\<lambda>content.
        classify t c body_full content)))"

section \<open>The RPC port\<close>

definition rpc_open :: "string \<Rightarrow> unit port" where
  "rpc_open path =
     seq (open_port path) (\<lambda>_ s.
       (Inr (), s\<lparr>rpc_path := path, inbuf := [], attach_allowed := False\<rparr>))"

definition reopen :: "unit port" where
  \<comment> \<open>\<open>self.file = open_port(&self.path)?\<close> closes the old file after the new one is open.\<close>
  "reopen = (\<lambda>s.
     seq (open_port (rpc_path s)) (\<lambda>_ s.
       (Inr (), (log_call OsClose s)\<lparr>inbuf := [], attach_allowed := False\<rparr>)) s)"

definition wait_readable :: "nat option \<Rightarrow> unit port" where
  "wait_readable deadline =
     (case deadline of
        None \<Rightarrow> ret ()
      | Some d \<Rightarrow>
          seq instant_now (\<lambda>n.
          if n \<ge> d then raise Timeout else
          let timeout_ms = min ((d - n) div 1000000) (2 ^ 31 - 1) in
          seq (poll_port timeout_ms) (\<lambda>ready.
          case ready of
            PollFailed e \<Rightarrow> raise (Io e)
          | PollReady k \<Rightarrow> if k = 0 then raise Timeout else ret ())))"

definition buffered_frame :: "byte list \<Rightarrow> (error, nat option) res" where
  \<comment> \<open>The test at the head of the loop of \<open>read_message\<close>: the length of the complete frame at the
    front of the buffer, if there is one.\<close>
  "buffered_frame buf =
     (if length buf \<ge> 4 then
        let flen = unat (from_le32 (take 4 buf)) + 4 in
        if \<not> (20 \<le> flen \<and> flen \<le> MAX_MESSAGE_LEN)
        then Inl (Err (Protocol (''invalid RPC frame length '' @ dec_string flen
               @ '', channel out of sync'')))
        else Inr (if length buf \<ge> flen then Some flen else None)
      else Inr None)"

definition fill_buffer :: "nat option \<Rightarrow> unit port" where
  \<comment> \<open>The rest of the loop body: wait, read a chunk, append it.\<close>
  "fill_buffer deadline =
     seq (wait_readable deadline) (\<lambda>_.
     seq read_chunk (\<lambda>chunk.
     if chunk = [] then raise (Protocol ''RPC port closed'')
     else (\<lambda>s. (Inr (), s\<lparr>inbuf := inbuf s @ chunk\<rparr>))))"

section \<open>What every operation keeps of the port\<close>

text \<open>
  \<open>pending\<close> counts the bytes that can still be received, those of a chunk not yet read twice and
  one more per chunk, so that a read always makes it smaller.  It is what the loops of this module
  and of \<open>modem.rs\<close> decrease.
\<close>

fun read_weight :: "io_error + byte list \<Rightarrow> nat" where
  "read_weight (Inl _) = 1"
| "read_weight (Inr bs) = 1 + 2 * length bs"

definition pending :: "sys \<Rightarrow> nat" where
  "pending s = length (inbuf s) + sum_list (map read_weight (os_reads s))"

fun write_of :: "os_call \<Rightarrow> byte list option" where
  "write_of (OsWrite bs) = Some bs"
| "write_of _ = None"

definition sent :: "sys \<Rightarrow> byte list list" where
  \<comment> \<open>The packets written to the port, in order.\<close>
  "sent s = List.map_filter write_of (os_calls s)"

definition evolves :: "sys \<Rightarrow> sys \<Rightarrow> bool" where
  "evolves s t \<longleftrightarrow>
     (\<exists>cs. os_calls t = os_calls s @ cs) \<and> os_clock t = os_clock s \<and> os_ticks s \<le> os_ticks t \<and>
     rpc_path t = rpc_path s \<and> pending t \<le> pending s \<and>
     length (os_writes t) \<le> length (os_writes s)"

definition listens :: "sys \<Rightarrow> sys \<Rightarrow> bool" where
  \<comment> \<open>An evolution that sends nothing and opens nothing.\<close>
  "listens s t \<longleftrightarrow> evolves s t \<and> sent t = sent s \<and> os_writes t = os_writes s \<and>
     os_opens t = os_opens s"

lemma evolves_refl [simp, intro]: "evolves s s"
  by (simp add: evolves_def)

lemma evolves_trans [trans]: "evolves s t \<Longrightarrow> evolves t u \<Longrightarrow> evolves s u"
  by (auto simp: evolves_def)

lemma listens_refl [simp, intro]: "listens s s"
  by (simp add: listens_def)

lemma listens_trans [trans]: "listens s t \<Longrightarrow> listens t u \<Longrightarrow> listens s u"
  by (auto simp: listens_def intro: evolves_trans)

locale port_op =
  fixes op :: "'a port"
  assumes evolves: "op s = (x, t) \<Longrightarrow> evolves s t"

locale listener = port_op +
  assumes listens: "op s = (x, t) \<Longrightarrow> listens s t"
begin

lemma keeps_writes: "op s = (x, t) \<Longrightarrow> os_writes t = os_writes s"
  using listens by (auto simp: listens_def)

lemma sends_nothing: "op s = (x, t) \<Longrightarrow> sent t = sent s"
  using listens by (auto simp: listens_def)

end

locale receiver = listener +
  assumes consumes: "op s = (Inr m, t) \<Longrightarrow> pending t < pending s"

lemma port_op_ret: "port_op (ret a)"
  by unfold_locales simp

lemma port_op_raise: "port_op (raise e)"
  by unfold_locales simp

lemma port_op_lift_res: "port_op (lift_res r)"
  by unfold_locales simp

lemma port_op_seq:
  assumes m: "port_op m" and f: "\<And>a. port_op (f a)"
  shows "port_op (seq m f)"
proof
  fix s x t
  assume "seq m f s = (x, t)"
  then show "evolves s t"
    by (cases rule: seq_elim)
      (blast intro: evolves_trans port_op.evolves [OF m] port_op.evolves [OF f])+
qed

lemma port_op_if: "port_op m \<Longrightarrow> port_op n \<Longrightarrow> port_op (if b then m else n)"
  by simp

lemma listenerI: "(\<And>s x t. op s = (x, t) \<Longrightarrow> listens s t) \<Longrightarrow> listener op"
  by unfold_locales (auto simp: listens_def)

lemma listener_ret: "listener (ret a)"
  by (rule listenerI) simp

lemma listener_raise: "listener (raise e)"
  by (rule listenerI) simp

lemma listener_lift_res: "listener (lift_res r)"
  by (rule listenerI) simp

lemma listener_seq:
  assumes m: "listener m" and f: "\<And>a. listener (f a)"
  shows "listener (seq m f)"
proof (rule listenerI)
  fix s x t
  assume "seq m f s = (x, t)"
  then show "listens s t"
    by (cases rule: seq_elim)
      (blast intro: listens_trans listener.listens [OF m] listener.listens [OF f])+
qed

lemma listener_if: "listener m \<Longrightarrow> listener n \<Longrightarrow> listener (if b then m else n)"
  by simp

lemmas listener_port_op = listener.axioms(1)

lemmas listener_intros =
  listener_ret listener_raise listener_lift_res listener_seq listener_if

lemmas port_op_intros =
  port_op_ret port_op_raise port_op_lift_res port_op_seq port_op_if

lemma sent_log_call:
  "sent (log_call c s) = sent s @ (case c of OsWrite bs \<Rightarrow> [bs] | _ \<Rightarrow> [])"
  by (cases c) (simp_all add: sent_def log_call_def map_filter_def)

lemma log_call_fields [simp]:
  "os_clock (log_call c s) = os_clock s" "os_ticks (log_call c s) = os_ticks s"
  "os_polls (log_call c s) = os_polls s" "os_reads (log_call c s) = os_reads s"
  "os_writes (log_call c s) = os_writes s" "os_opens (log_call c s) = os_opens s"
  "os_calls (log_call c s) = os_calls s @ [c]" "rpc_path (log_call c s) = rpc_path s"
  "inbuf (log_call c s) = inbuf s" "attach_allowed (log_call c s) = attach_allowed s"
  by (simp_all add: log_call_def)

lemma sent_update [simp]:
  "sent (s\<lparr>os_ticks := a\<rparr>) = sent s" "sent (s\<lparr>os_polls := b\<rparr>) = sent s"
  "sent (s\<lparr>os_reads := c\<rparr>) = sent s" "sent (s\<lparr>os_writes := d\<rparr>) = sent s"
  "sent (s\<lparr>os_opens := e\<rparr>) = sent s" "sent (s\<lparr>rpc_path := f\<rparr>) = sent s"
  "sent (s\<lparr>inbuf := g\<rparr>) = sent s" "sent (s\<lparr>attach_allowed := h\<rparr>) = sent s"
  by (simp_all add: sent_def)

lemma listener_instant_now: "listener instant_now"
  by (rule listenerI) (auto simp: instant_now_def listens_def evolves_def pending_def)

lemma listener_poll_port: "listener (poll_port n)"
  by (rule listenerI)
    (auto simp: poll_port_def listens_def evolves_def pending_def sent_log_call Let_def
      split: list.splits)

lemma listener_sleep_for: "listener (sleep_for d)"
  by (rule listenerI)
    (auto simp: sleep_for_def listens_def evolves_def pending_def sent_log_call)

lemma port_op_write_all: "port_op (write_all bs)"
  by unfold_locales
    (auto simp: write_all_def evolves_def pending_def Let_def split: list.splits option.splits)

lemma port_op_open_port: "port_op (open_port path)"
  by unfold_locales
    (auto simp: open_port_def evolves_def pending_def Let_def split: list.splits option.splits)

lemma listener_wait_readable: "listener (wait_readable deadline)"
  unfolding wait_readable_def Let_def
  by (auto intro!: listener_intros listener_instant_now listener_poll_port
      split: option.split poll_answer.split)

lemma READ_BUF_LEN_pos: "0 < READ_BUF_LEN"
  by (simp add: READ_BUF_LEN_def)

lemma read_chunk_pending:
  "read_chunk s = (Inr chunk, t) \<Longrightarrow> inbuf t = inbuf s \<and> pending t + length chunk < pending s"
  using READ_BUF_LEN_pos
  by (auto simp: read_chunk_def pending_def Let_def split: list.splits sum.splits if_splits)

lemma listener_read_chunk: "listener read_chunk"
proof (rule listenerI)
  fix s x t
  assume run: "read_chunk s = (x, t)"
  have "pending t \<le> pending s"
  proof (cases x)
    case (Inr c)
    with run read_chunk_pending [of s c t] show ?thesis by simp
  next
    case (Inl e)
    with run show ?thesis
      by (auto simp: read_chunk_def pending_def Let_def split: list.splits sum.splits)
  qed
  with run show "listens s t"
    by (auto simp: read_chunk_def listens_def evolves_def sent_log_call Let_def
        split: list.splits sum.splits)
qed

lemma fill_buffer_pending:
  "fill_buffer deadline s = (Inr u, t) \<Longrightarrow> pending t < pending s"
proof -
  assume "fill_buffer deadline s = (Inr u, t)"
  then obtain v w chunk where "wait_readable deadline s = (Inr (), v)"
    and "read_chunk v = (Inr chunk, w)" and "t = w\<lparr>inbuf := inbuf w @ chunk\<rparr>"
    by (auto simp: fill_buffer_def seq_eq_Inr split: if_splits)
  moreover from this have "pending v \<le> pending s"
    using listener.listens [OF listener_wait_readable] by (fastforce simp: listens_def evolves_def)
  ultimately show "pending t < pending s"
    using read_chunk_pending [of v chunk w] by (auto simp: pending_def)
qed

lemma listener_fill_buffer: "listener (fill_buffer deadline)"
proof (rule listenerI)
  fix s x t
  assume run: "fill_buffer deadline s = (x, t)"
  note ops = listener.listens [OF listener_wait_readable] listener.listens [OF listener_read_chunk]
  show "listens s t"
  proof (cases x)
    case (Inl e)
    with run show ?thesis
      unfolding fill_buffer_def
      by (elim seq_elim) (auto intro: ops listens_trans split: if_splits)
  next
    case (Inr u)
    with run obtain v w chunk where "wait_readable deadline s = (Inr (), v)"
      and "read_chunk v = (Inr chunk, w)" and t: "t = w\<lparr>inbuf := inbuf w @ chunk\<rparr>"
      by (auto simp: fill_buffer_def seq_eq_Inr split: if_splits)
    then have "listens s w" by (blast intro: ops listens_trans)
    moreover have "pending t \<le> pending s"
      using fill_buffer_pending run Inr by (auto intro: less_imp_le)
    ultimately show ?thesis by (simp add: t listens_def evolves_def)
  qed
qed

section \<open>Receiving\<close>

function read_message_loop :: "nat option \<Rightarrow> sys \<Rightarrow> (error, byte list) res \<times> sys" where
  "read_message_loop deadline s =
     (case buffered_frame (inbuf s) of
        Inl e \<Rightarrow> (Inl e, s)
      | Inr (Some n) \<Rightarrow> (Inr (take n (inbuf s)), s\<lparr>inbuf := drop n (inbuf s)\<rparr>)
      | Inr None \<Rightarrow> seq (fill_buffer deadline) (\<lambda>_. read_message_loop deadline) s)"
  by pat_completeness auto
termination
  by (relation "measure (\<lambda>(deadline, s). pending s)") (auto dest: fill_buffer_pending)

declare read_message_loop.simps [simp del]

definition read_message :: "nat option \<Rightarrow> byte list port" where
  "read_message timeout =
     (case timeout of
        None \<Rightarrow> read_message_loop None
      | Some d \<Rightarrow>
          seq instant_now (\<lambda>n.
          seq (lift_res (instant_add n d)) (\<lambda>deadline.
          read_message_loop (Some deadline))))"

definition handle_unsolicited :: "message \<Rightarrow> sys \<Rightarrow> sys" where
  "handle_unsolicited m s =
     (if msg_code m = UTA_MS_NET_IS_ATTACH_ALLOWED_IND_CB
      then (case Option.bind (slice_get (msg_content m) 2) as_int of
              None \<Rightarrow> s
            | Some allowed \<Rightarrow> s\<lparr>attach_allowed := (allowed \<noteq> 0)\<rparr>)
      else s)"

definition recv_inner :: "nat option \<Rightarrow> message port" where
  "recv_inner timeout =
     seq (read_message timeout) (\<lambda>raw.
     seq (lift_res (parse raw)) (\<lambda>m s.
     (Inr m, if msg_kind m = UnsolicitedInd then handle_unsolicited m s else s)))"

definition recv :: "message port" where
  "recv = recv_inner None"

text \<open>A received frame is at least 20 bytes long, so receiving makes progress.\<close>

lemma buffered_frame_Some:
  "buffered_frame buf = Inr (Some n) \<Longrightarrow> 20 \<le> n \<and> n \<le> length buf \<and> n \<le> MAX_MESSAGE_LEN"
  by (auto simp: buffered_frame_def Let_def split: if_splits)

lemma drain_listens: "listens s (s\<lparr>inbuf := drop n (inbuf s)\<rparr>)"
  by (auto simp: listens_def evolves_def pending_def)

lemma read_message_loop_listens:
  "read_message_loop deadline s = (x, t) \<Longrightarrow> listens s t"
proof (induction deadline s arbitrary: x t rule: read_message_loop.induct)
  case (1 deadline s)
  from "1.prems" show ?case
    by (subst (asm) read_message_loop.simps)
      (auto simp: drain_listens split: sum.splits option.splits elim!: seq_elim
        intro: listens_trans "1.IH" listener.listens [OF listener_fill_buffer])
qed

lemma read_message_loop_consumes:
  "read_message_loop deadline s = (Inr raw, t) \<Longrightarrow> 20 \<le> length raw \<and> pending t + 20 \<le> pending s"
proof (induction deadline s arbitrary: raw t rule: read_message_loop.induct)
  case (1 deadline s)
  consider (frame) n where "buffered_frame (inbuf s) = Inr (Some n)" "raw = take n (inbuf s)"
      "t = s\<lparr>inbuf := drop n (inbuf s)\<rparr>"
    | (fill) u where "buffered_frame (inbuf s) = Inr None" "fill_buffer deadline s = (Inr (), u)"
      "read_message_loop deadline u = (Inr raw, t)"
    using "1.prems"
    by (subst (asm) read_message_loop.simps)
      (auto simp: seq_eq_Inr split: sum.splits option.splits)
  then show ?case
  proof cases
    case frame
    then show ?thesis using buffered_frame_Some [OF frame(1)] by (auto simp: pending_def)
  next
    case fill
    with "1.IH" [OF fill(1) refl fill(2,3)] fill_buffer_pending [OF fill(2)] show ?thesis by simp
  qed
qed

lemma listener_read_message: "listener (read_message timeout)"
proof -
  have loop: "listener (read_message_loop deadline)" for deadline
    by (rule listenerI) (rule read_message_loop_listens)
  then show ?thesis
    unfolding read_message_def
    by (cases timeout) (auto intro: listener_intros listener_instant_now)
qed

lemma read_message_consumes:
  assumes "read_message timeout s = (Inr raw, t)"
  shows "20 \<le> length raw" and "pending t + 20 \<le> pending s"
proof -
  obtain u d where run: "listens s u" "read_message_loop d u = (Inr raw, t)"
    using assms
    by (cases timeout)
      (fastforce simp: read_message_def seq_eq_Inr dest: listener.listens [OF listener_instant_now])+
  from run(1) have "pending u \<le> pending s" by (simp add: listens_def evolves_def)
  with read_message_loop_consumes [OF run(2)]
  show "20 \<le> length raw" "pending t + 20 \<le> pending s" by simp_all
qed

lemma handle_unsolicited_listens: "listens s (handle_unsolicited m s)"
  by (auto simp: handle_unsolicited_def listens_def evolves_def pending_def split: option.splits)

lemma receiver_recv_inner: "receiver (recv_inner timeout)"
proof -
  have "listener (\<lambda>s. (Inr m, if b then handle_unsolicited m s else s) :: (error, message) res \<times> sys)"
    for m b
    by (rule listenerI) (auto intro: handle_unsolicited_listens)
  then have "listener (recv_inner timeout)"
    unfolding recv_inner_def
    by (intro listener_intros listener_read_message)
  moreover have "pending t < pending s" if "recv_inner timeout s = (Inr m, t)" for s m t
  proof -
    from that obtain u raw where "read_message timeout s = (Inr raw, u)"
      and "t = u \<or> t = handle_unsolicited m u"
      by (auto simp: recv_inner_def seq_eq_Inr)
    moreover from this(2) have "pending t \<le> pending u"
      using handle_unsolicited_listens [of u m] by (auto simp: listens_def evolves_def)
    ultimately show ?thesis using read_message_consumes(2) by fastforce
  qed
  ultimately show ?thesis by (intro receiver.intro receiver_axioms.intro)
qed

interpretation recv_op: receiver "recv_inner timeout" for timeout
  by (rule receiver_recv_inner)

lemma recv_consumes [dest]: "recv s = (Inr m, t) \<Longrightarrow> pending t < pending s"
  unfolding recv_def by (rule recv_op.consumes)

lemma listener_recv: "listener recv"
  unfolding recv_def by (rule recv_op.listener_axioms)

section \<open>Requests\<close>

definition build_header :: "call_id_t \<Rightarrow> nat \<Rightarrow> mode \<Rightarrow> byte list" where
  "build_header cmd body_len m =
     (let t = (case m of Sync \<Rightarrow> 0 | Async \<Rightarrow> TXID_ASYNC);
          tid_word = TXID_SYNC OR t;
          len = of_nat body_len + 16 + (if t \<noteq> 0 then 6 else 0) :: usize
      in to_le32 (ucast len) @ asn_int (ucast len) @ asn_int (raw_id cmd) @ to_be32 tid_word
         @ (if t \<noteq> 0 then asn_int t else []))"

function execute_loop :: "nat \<Rightarrow> sys \<Rightarrow> (error, message) res \<times> sys" where
  "execute_loop timeout s =
     seq (recv_inner (Some timeout)) (\<lambda>m s.
       case msg_kind m of
         Response \<Rightarrow> (Inr m, s)
       | AsyncAck \<Rightarrow> execute_loop timeout s
       | UnsolicitedInd \<Rightarrow> execute_loop timeout s) s"
  by pat_completeness auto
termination
  by (relation "measure (\<lambda>(timeout, s). pending s)") (auto dest: recv_op.consumes)

declare execute_loop.simps [simp del]

definition execute_with_timeout :: "call_id_t \<Rightarrow> byte list \<Rightarrow> mode \<Rightarrow> nat \<Rightarrow> message port" where
  "execute_with_timeout cmd payload m timeout =
     seq (write_all (build_header cmd (length payload) m @ payload)) (\<lambda>_. execute_loop timeout)"

definition execute :: "call_id_t \<Rightarrow> byte list \<Rightarrow> mode \<Rightarrow> message port" where
  "execute cmd payload m = execute_with_timeout cmd payload m RESPONSE_TIMEOUT"

lemma execute_loop_listens: "execute_loop timeout s = (x, t) \<Longrightarrow> listens s t"
proof (induction timeout s arbitrary: x t rule: execute_loop.induct)
  case (1 timeout s)
  from "1.prems" show ?case
    by (subst (asm) execute_loop.simps, elim seq_elim)
      (auto split: message_kind.splits intro: listens_trans "1.IH" recv_op.listens)
qed

interpretation response: listener "execute_loop timeout" for timeout
  by (rule listenerI) (rule execute_loop_listens)

interpretation request: port_op "execute_with_timeout cmd payload m timeout"
    for cmd payload m timeout
  unfolding execute_with_timeout_def
  by (intro port_op_intros port_op_write_all response.port_op_axioms)

lemma port_op_execute: "port_op (execute cmd payload m)"
  unfolding execute_def by (rule request.port_op_axioms)

section \<open>Loops that receive until a message stops them\<close>

inductive receives :: "message port \<Rightarrow> sys \<Rightarrow> message list \<Rightarrow> sys \<Rightarrow> bool" for rcv where
  receives_none: "receives rcv s [] s"
| receives_more: "rcv s = (Inr m, u) \<Longrightarrow> receives rcv u ms t \<Longrightarrow> receives rcv s (m # ms) t"

inductive_simps receives_Nil_iff [simp]: "receives rcv s [] t"

inductive_simps receives_Cons_iff [simp]: "receives rcv s (m # ms) t"

lemma receives_append:
  "receives rcv s (ms @ ns) t \<longleftrightarrow> (\<exists>u. receives rcv s ms u \<and> receives rcv u ns t)"
  by (induction ms arbitrary: s) auto

locale receive_until = receiver rcv
  for rcv :: "message port" +
  fixes loop :: "'b port" and stop :: "message \<Rightarrow> bool" and finish :: "message \<Rightarrow> 'b port"
  assumes unfold: "loop s = seq rcv (\<lambda>m u. if stop m then finish m u else loop u) s"
begin

lemma loop_outcome:
  "\<exists>ms u. receives rcv s ms u \<and> (\<forall>m \<in> set ms. \<not> stop m) \<and>
     ((\<exists>e. rcv u = (Inl e, snd (loop s)) \<and> fst (loop s) = Inl e) \<or>
      (\<exists>m v. rcv u = (Inr m, v) \<and> stop m \<and> finish m v = loop s))"
proof (induction "pending s" arbitrary: s rule: less_induct)
  case less
  show ?case
  proof (cases "rcv s")
    case (Pair x v)
    show ?thesis
    proof (cases x)
      case (Inl e)
      with Pair have "loop s = (Inl e, v)" by (subst unfold) (simp add: seq_def)
      with Pair Inl show ?thesis by (intro exI [of _ "[]"] exI [of _ s]) simp
    next
      case (Inr m)
      with Pair have run: "rcv s = (Inr m, v)" by simp
      show ?thesis
      proof (cases "stop m")
        case True
        with run have "loop s = finish m v" by (subst unfold) (simp add: seq_def)
        with run True show ?thesis by (intro exI [of _ "[]"] exI [of _ s]) simp
      next
        case False
        with run have eq: "loop s = loop v" by (subst unfold) (simp add: seq_def)
        from less [OF consumes [OF run]] obtain ms u where
          "receives rcv v ms u" "\<forall>m \<in> set ms. \<not> stop m" and
          "(\<exists>e. rcv u = (Inl e, snd (loop v)) \<and> fst (loop v) = Inl e) \<or>
           (\<exists>m w. rcv u = (Inr m, w) \<and> stop m \<and> finish m w = loop v)"
          by blast
        with run False show ?thesis
          unfolding eq by (intro exI [of _ "m # ms"] exI [of _ u]) auto
      qed
    qed
  qed
qed

lemma loop_run:
  "receives rcv s ms u \<Longrightarrow> \<forall>m \<in> set ms. \<not> stop m \<Longrightarrow> loop s = loop u"
proof (induction rule: receives.induct)
  case (receives_more s m u ms t)
  then show ?case by (subst unfold) (simp add: seq_def)
qed simp

lemma loop_stops:
  assumes "receives rcv s ms u" and "\<forall>m \<in> set ms. \<not> stop m"
    and "rcv u = (Inr m, v)" and "stop m"
  shows "loop s = finish m v"
proof -
  have "loop s = loop u" using assms(1,2) by (rule loop_run)
  then show ?thesis using assms(3,4) by (subst (asm) (2) unfold) (simp add: seq_def)
qed

lemma loop_fails:
  assumes "receives rcv s ms u" and "\<forall>m \<in> set ms. \<not> stop m" and "rcv u = (Inl e, v)"
  shows "loop s = (Inl e, v)"
proof -
  have "loop s = loop u" using assms(1,2) by (rule loop_run)
  then show ?thesis using assms(3) by (subst (asm) (2) unfold) (simp add: seq_def)
qed

end

interpretation respond: receive_until "recv_inner (Some timeout)" "execute_loop timeout"
    "\<lambda>m. msg_kind m = Response" ret for timeout
proof unfold_locales
  fix s
  show "execute_loop timeout s =
      seq (recv_inner (Some timeout))
        (\<lambda>m u. if msg_kind m = Response then ret m u else execute_loop timeout u) s"
    by (subst execute_loop.simps) (auto intro!: seq_cong split: message_kind.split)
qed

lemma execute_loop_response:
  assumes "execute_loop timeout s = (Inr m, t)"
  shows "msg_kind m = Response"
  using respond.loop_outcome [of timeout s] assms by auto

end
