(* ===== verification/Framing.thy ===== *)
theory Framing
  imports Transport
begin

text \<open>
  What the framing layer of \<open>src/src/transport.rs\<close> (\<open>read_message\<close>, \<open>wait_readable\<close>) promises,
  stated on the stream of bytes the port still has to deliver: how the bytes are cut into reads
  does not matter, no byte is lost or invented, and a peer that answers in time is always heard.
\<close>


section \<open>The stream of bytes still to be received\<close>

primrec arriving :: "(io_error + byte list) list \<Rightarrow> byte list" where
  "arriving [] = []"
| "arriving (r # rs) = (case r of Inl _ \<Rightarrow> [] | Inr bs \<Rightarrow> bs) @ arriving rs"

definition stream :: "sys \<Rightarrow> byte list" where
  "stream s = inbuf s @ arriving (os_reads s)"

fun taken :: "(error, byte list) res \<Rightarrow> byte list" where
  "taken (Inr bs) = bs"
| "taken (Inl _) = []"

definition is_frame :: "byte list \<Rightarrow> bool" where
  \<comment> \<open>A little-endian count of the bytes after it, within the bounds of the code.\<close>
  "is_frame raw \<longleftrightarrow>
     20 \<le> length raw \<and> length raw \<le> MAX_MESSAGE_LEN \<and>
     length raw = unat (from_le32 (take 4 raw)) + 4"

definition next_frame :: "byte list \<Rightarrow> (error, byte list) res \<times> byte list" where
  \<comment> \<open>The specification of \<open>read_message\<close>: take the frame at the front of the stream.\<close>
  "next_frame bs =
     (case buffered_frame bs of
        Inl e \<Rightarrow> (Inl e, bs)
      | Inr None \<Rightarrow> (Inl Blocked, bs)
      | Inr (Some n) \<Rightarrow> (Inr (take n bs), drop n bs))"

lemma buffered_frame_append:
  "buffered_frame buf = Inl e \<Longrightarrow> buffered_frame (buf @ bs) = Inl e"
  "buffered_frame buf = Inr (Some n) \<Longrightarrow> buffered_frame (buf @ bs) = Inr (Some n)"
  by (auto simp: buffered_frame_def Let_def split: if_splits)

lemma buffered_frame_is_frame: "buffered_frame buf = Inr (Some n) \<Longrightarrow> is_frame (take n buf)"
  by (auto simp: buffered_frame_def is_frame_def Let_def min_absorb1 min_absorb2 split: if_splits)

lemma buffered_frame_of_frame: "is_frame f \<Longrightarrow> buffered_frame (f @ bs) = Inr (Some (length f))"
  by (auto simp: is_frame_def buffered_frame_def Let_def)

lemma next_frame_append: "is_frame f \<Longrightarrow> next_frame (f @ bs) = (Inr f, bs)"
  by (simp add: next_frame_def buffered_frame_of_frame)

lemma stream_update [simp]:
  "stream (s\<lparr>os_ticks := a\<rparr>) = stream s" "stream (s\<lparr>os_polls := b\<rparr>) = stream s"
  "stream (s\<lparr>os_writes := c\<rparr>) = stream s" "stream (s\<lparr>attach_allowed := d\<rparr>) = stream s"
  "stream (log_call e s) = stream s"
  by (simp_all add: stream_def)

lemma wait_readable_keeps:
  "wait_readable deadline s = (x, t) \<Longrightarrow> os_reads t = os_reads s \<and> inbuf t = inbuf s"
  by (auto simp: wait_readable_def instant_now_def poll_port_def Let_def
      split: option.splits list.splits poll_answer.splits if_splits elim!: seq_elim)

lemma read_chunk_stream:
  assumes "read_chunk s = (x, t)"
  shows "inbuf t = inbuf s"
    and "arriving (os_reads s) = taken x @ arriving (os_reads t)"
  using assms
  by (auto simp: read_chunk_def Let_def split: list.splits sum.splits if_splits)

lemma fill_buffer_stream:
  assumes "fill_buffer deadline s = (x, t)"
  shows "stream t = stream s"
  using assms unfolding fill_buffer_def
proof (cases rule: seq_elim)
  case (stop e)
  then show ?thesis by (auto simp: stream_def dest: wait_readable_keeps)
next
  case (go a u)
  have s: "stream s = inbuf u @ arriving (os_reads u)"
    using wait_readable_keeps [OF go(1)] by (simp add: stream_def)
  from go(2) show ?thesis
  proof (cases rule: seq_elim)
    case (stop e)
    with read_chunk_stream [OF stop(1)] s show ?thesis by (simp add: stream_def)
  next
    case (go c v)
    with read_chunk_stream [OF go(1)] s show ?thesis
      by (auto simp: stream_def split: if_splits)
  qed
qed

text \<open>
  Nothing is lost and nothing is invented: whatever the answers of the operating system, a call
  takes exactly one frame off the stream or leaves the stream as it was.
\<close>

lemma read_message_loop_stream:
  "read_message_loop deadline s = (x, t) \<Longrightarrow>
   stream s = taken x @ stream t \<and> (\<forall>raw. x = Inr raw \<longrightarrow> is_frame raw)"
proof (induction deadline s arbitrary: x t rule: read_message_loop.induct)
  case (1 deadline s)
  consider (fail) e where "x = Inl e" "t = s"
    | (frame) n where "buffered_frame (inbuf s) = Inr (Some n)" "x = Inr (take n (inbuf s))"
      "t = s\<lparr>inbuf := drop n (inbuf s)\<rparr>"
    | (stop) e where "fill_buffer deadline s = (Inl e, t)" "x = Inl e"
    | (fill) u where "buffered_frame (inbuf s) = Inr None" "fill_buffer deadline s = (Inr (), u)"
      "read_message_loop deadline u = (x, t)"
    using "1.prems"
    by (subst (asm) read_message_loop.simps)
      (auto split: sum.splits option.splits elim!: seq_elim)
  then show ?case
  proof cases
    case frame
    then show ?thesis by (simp add: buffered_frame_is_frame stream_def)
  next
    case fill
    from "1.IH" [OF fill(1) refl fill(2,3)] fill_buffer_stream [OF fill(2)] show ?thesis by simp
  qed (auto dest: fill_buffer_stream)
qed

lemma read_message_stream:
  assumes "read_message timeout s = (x, t)"
  shows "stream s = taken x @ stream t" and "x = Inr raw \<Longrightarrow> is_frame raw"
proof -
  consider (loop) d u where "read_message_loop d u = (x, t)" "stream u = stream s"
    | (stop) e where "x = Inl e" "stream t = stream s"
    using assms
    by (cases timeout) (auto simp: read_message_def instant_now_def elim!: seq_elim)
  then have "stream s = taken x @ stream t \<and> (\<forall>raw. x = Inr raw \<longrightarrow> is_frame raw)"
    by cases (auto dest: read_message_loop_stream)
  then show "stream s = taken x @ stream t" "x = Inr raw \<Longrightarrow> is_frame raw" by blast+
qed

section \<open>A peer that keeps the port supplied\<close>

definition fed :: "sys \<Rightarrow> bool" where
  \<comment> \<open>Every read succeeds and delivers at least one byte.\<close>
  "fed s \<longleftrightarrow> (\<forall>r \<in> set (os_reads s). \<exists>bs. r = Inr bs \<and> bs \<noteq> [])"

definition prompt :: "nat option \<Rightarrow> sys \<Rightarrow> bool" where
  \<comment> \<open>No deadline is ever reached: the clock stays within the timeout and each poll says there is
    data.\<close>
  "prompt timeout s \<longleftrightarrow>
     (case timeout of
        None \<Rightarrow> True
      | Some d \<Rightarrow>
          (\<forall>i j. os_clock s i < os_clock s j + d) \<and>
          (\<forall>i. (os_clock s i + d) div nanos 1 \<le> 2 ^ 63 - 1) \<and>
          pending s \<le> length (os_polls s) \<and>
          (\<forall>p \<in> set (os_polls s). \<exists>k > 0. p = PollReady k))"

lemma read_chunk_fed:
  assumes "fed s" and "os_reads s \<noteq> []"
  obtains c t where "read_chunk s = (Inr c, t)" "c \<noteq> []" "fed t" "os_clock t = os_clock s"
    "os_polls t = os_polls s"
proof -
  from assms obtain bs rs where rs: "os_reads s = Inr bs # rs" "bs \<noteq> []"
    by (cases "os_reads s") (auto simp: fed_def)
  show thesis
    by (rule that [of "take READ_BUF_LEN bs" "snd (read_chunk s)"])
      (use assms(1) rs READ_BUF_LEN_pos in \<open>auto simp: read_chunk_def fed_def Let_def\<close>)
qed

lemma read_weight_pos [simp]: "0 < read_weight r"
  by (cases r) simp_all

lemma pending_pos: "os_reads s \<noteq> [] \<Longrightarrow> 0 < pending s"
  by (cases "os_reads s") (auto simp: pending_def)

definition in_time :: "nat option \<Rightarrow> sys \<Rightarrow> bool" where
  "in_time deadline s \<longleftrightarrow>
     (case deadline of
        None \<Rightarrow> True
      | Some d \<Rightarrow> (\<forall>i. os_clock s i < d) \<and> pending s \<le> length (os_polls s) \<and>
          (\<forall>p \<in> set (os_polls s). \<exists>k > 0. p = PollReady k))"

lemma wait_readable_in_time:
  assumes "in_time deadline s" and "os_reads s \<noteq> []"
  obtains t where "wait_readable deadline s = (Inr (), t)" "os_clock t = os_clock s"
    "os_reads t = os_reads s" "inbuf t = inbuf s"
    "deadline \<noteq> None \<longrightarrow> (\<exists>k > 0. os_polls s = PollReady k # os_polls t)"
proof (cases deadline)
  case None
  then show thesis by (intro that [of s]) (simp_all add: wait_readable_def)
next
  case (Some d)
  then obtain k ps where "os_polls s = PollReady k # ps" "0 < k" "\<And>i. os_clock s i < d"
    using assms pending_pos [of s] by (cases "os_polls s") (auto simp: in_time_def)
  then show thesis
    by (intro that [of "snd (wait_readable deadline s)"])
      (simp_all add: Some wait_readable_def instant_now_def poll_port_def seq_def Let_def
        not_le)
qed

lemma wait_readable_in_time_any:
  assumes "in_time deadline s"
  shows "fst (wait_readable deadline s) \<in> {Inr (), Inl Blocked}"
proof (cases deadline)
  case (Some d)
  with assms have now: "\<not> d \<le> os_clock s (os_ticks s)" by (simp add: in_time_def not_le)
  show ?thesis
  proof (cases "os_polls s")
    case Nil
    with now Some show ?thesis
      by (simp add: wait_readable_def instant_now_def poll_port_def seq_def Let_def)
  next
    case (Cons p ps)
    with assms Some obtain k where "p = PollReady k" "0 < k" by (auto simp: in_time_def)
    with now Some Cons show ?thesis
      by (simp add: wait_readable_def instant_now_def poll_port_def seq_def Let_def)
  qed
qed (simp add: wait_readable_def)

lemma fill_buffer_starved:
  assumes "in_time deadline s" and "os_reads s = []"
  obtains t where "fill_buffer deadline s = (Inl Blocked, t)"
proof -
  obtain x u where u: "wait_readable deadline s = (x, u)" by force
  with assms wait_readable_keeps [OF u] wait_readable_in_time_any [OF assms(1)]
  have "os_reads u = []" "x = Inr () \<or> x = Inl Blocked" by simp_all
  then show thesis
    using u that by (auto simp: fill_buffer_def seq_def read_chunk_def Let_def)
qed

lemma fill_buffer_fed:
  assumes "in_time deadline s" and "fed s" and "os_reads s \<noteq> []"
  obtains t where "fill_buffer deadline s = (Inr (), t)" "in_time deadline t" "fed t"
    "os_clock t = os_clock s"
proof -
  obtain u where u: "wait_readable deadline s = (Inr (), u)" "os_clock u = os_clock s"
      "os_reads u = os_reads s" "inbuf u = inbuf s"
      "deadline \<noteq> None \<longrightarrow> (\<exists>k > 0. os_polls s = PollReady k # os_polls u)"
    by (rule wait_readable_in_time [OF assms(1,3)])
  then have "fed u" "os_reads u \<noteq> []" using u(3) assms by (simp_all add: fed_def)
  then obtain c v where v: "read_chunk u = (Inr c, v)" "c \<noteq> []" "fed v"
      "os_clock v = os_clock u" "os_polls v = os_polls u"
    using read_chunk_fed by blast
  define t where "t = v\<lparr>inbuf := inbuf v @ c\<rparr>"
  have run: "fill_buffer deadline s = (Inr (), t)"
    using u(1) v(1,2) by (simp add: fill_buffer_def seq_Inr t_def)
  moreover have "in_time deadline t"
  proof (cases deadline)
    case (Some d)
    with u(5) obtain k where "os_polls s = PollReady k # os_polls u" by auto
    then have "length (os_polls s) = Suc (length (os_polls t))" "set (os_polls t) \<subseteq> set (os_polls s)"
      using v(5) by (auto simp: t_def)
    with assms(1) Some fill_buffer_pending [OF run] u(2) v(4) show ?thesis
      by (simp add: in_time_def t_def subset_iff)
  qed (simp add: in_time_def)
  ultimately show thesis
    using that [of t] u(2) v(3,4) by (simp add: t_def fed_def)
qed

text \<open>With such a peer the loop of \<open>read_message\<close> returns the next frame of the stream.\<close>

lemma read_message_loop_fed:
  assumes "in_time deadline s" and "fed s"
  obtains t where "read_message_loop deadline s = (fst (next_frame (stream s)), t)"
    "\<And>raw. fst (next_frame (stream s)) = Inr raw \<Longrightarrow>
       in_time deadline t \<and> fed t \<and> os_clock t = os_clock s"
  using assms
proof (induction deadline s arbitrary: thesis rule: read_message_loop.induct)
  case (1 deadline s)
  consider (fail) e where "buffered_frame (inbuf s) = Inl e"
    | (frame) n where "buffered_frame (inbuf s) = Inr (Some n)"
    | (more) "buffered_frame (inbuf s) = Inr None"
    by (cases "buffered_frame (inbuf s)") auto
  then show ?case
  proof cases
    case fail
    then show ?thesis
      by (intro "1.prems"(1) [of s])
        (simp_all add: read_message_loop.simps [of deadline s] next_frame_def stream_def
          buffered_frame_append)
  next
    case frame
    let ?t = "s\<lparr>inbuf := drop n (inbuf s)\<rparr>"
    have "read_message_loop deadline s = (fst (next_frame (stream s)), ?t)"
      using buffered_frame_Some [OF frame] frame
      by (simp add: read_message_loop.simps [of deadline s] next_frame_def stream_def
          buffered_frame_append)
    moreover have "in_time deadline ?t \<and> fed ?t"
      using "1.prems"(2,3)
      by (auto simp: in_time_def fed_def pending_def split: option.splits)
    ultimately show ?thesis by (intro "1.prems"(1)) auto
  next
    case more
    show ?thesis
    proof (cases "os_reads s = []")
      case True
      obtain t where t: "fill_buffer deadline s = (Inl Blocked, t)"
        using fill_buffer_starved "1.prems"(2) True by blast
      with more True show ?thesis
        by (intro "1.prems"(1) [of t])
          (simp_all add: read_message_loop.simps [of deadline s] seq_Inl next_frame_def stream_def)
    next
      case False
      then obtain u where u: "fill_buffer deadline s = (Inr (), u)" "in_time deadline u" "fed u"
          "os_clock u = os_clock s"
        using fill_buffer_fed "1.prems"(2,3) by blast
      obtain t where "read_message_loop deadline u = (fst (next_frame (stream s)), t)"
          "\<And>raw. fst (next_frame (stream s)) = Inr raw \<Longrightarrow>
             in_time deadline t \<and> fed t \<and> os_clock t = os_clock s"
        using "1.IH" [OF more refl u(1)] u(2-4) fill_buffer_stream [OF u(1)] by metis
      with more u(1) show ?thesis
        by (intro "1.prems"(1) [of t])
          (simp_all add: read_message_loop.simps [of deadline s] seq_Inr)
    qed
  qed
qed

lemma prompt_in_time:
  "prompt (Some d) s \<Longrightarrow> in_time (Some (os_clock s i + d)) (s\<lparr>os_ticks := j\<rparr>)"
  by (simp add: prompt_def in_time_def pending_def)

lemma read_message_fed:
  assumes "prompt timeout s" and "fed s"
  obtains t where "read_message timeout s = (fst (next_frame (stream s)), t)"
    "\<And>raw. fst (next_frame (stream s)) = Inr raw \<Longrightarrow> prompt timeout t \<and> fed t"
proof (cases timeout)
  case None
  have "in_time None s" by (simp add: in_time_def)
  then obtain t where "read_message_loop None s = (fst (next_frame (stream s)), t)"
    "\<And>raw. fst (next_frame (stream s)) = Inr raw \<Longrightarrow> fed t"
    using read_message_loop_fed assms(2) by metis
  with None show thesis by (intro that [of t]) (simp_all add: read_message_def prompt_def)
next
  case (Some d)
  let ?u = "s\<lparr>os_ticks := os_ticks s + 1\<rparr>" and ?d = "os_clock s (os_ticks s) + d"
  have "instant_add (os_clock s (os_ticks s)) d = (Inr ?d :: (error, nat) res)"
    using assms(1) Some by (simp add: instant_add_def prompt_def)
  then have run: "read_message timeout s = read_message_loop (Some ?d) ?u"
    by (simp add: Some read_message_def instant_now_def seq_def)
  have "in_time (Some ?d) ?u" using assms(1) Some by (simp add: prompt_in_time)
  moreover have "fed ?u" using assms(2) by (simp add: fed_def)
  ultimately obtain t where t: "read_message_loop (Some ?d) ?u = (fst (next_frame (stream s)), t)"
    "\<And>raw. fst (next_frame (stream s)) = Inr raw \<Longrightarrow>
       in_time (Some ?d) t \<and> fed t \<and> os_clock t = os_clock s"
    by (rule read_message_loop_fed) auto
  show thesis
  proof (rule that [of t])
    fix raw
    assume "fst (next_frame (stream s)) = Inr raw"
    from t(2) [OF this] assms(1) Some show "prompt timeout t \<and> fed t"
      by (simp add: prompt_def in_time_def)
  qed (simp only: run t(1))
qed

definition quiet_sys :: sys where
  \<comment> \<open>A freshly opened port with no answer left, for the witnesses.\<close>
  "quiet_sys = \<lparr>os_clock = \<lambda>_. 0, os_ticks = 0, os_polls = [], os_reads = [], os_writes = [],
     os_opens = [], os_calls = [], rpc_path = ''port'', inbuf = [], attach_allowed = False\<rparr>"

section \<open>The deadline of one message\<close>

fun poll_of :: "os_call \<Rightarrow> nat option" where
  "poll_of (OsPoll ms) = Some ms"
| "poll_of _ = None"

definition polled :: "sys \<Rightarrow> nat list" where
  \<comment> \<open>The timeouts of the polls made, in milliseconds and in order.\<close>
  "polled s = List.map_filter poll_of (os_calls s)"

definition poll_ms :: "nat \<Rightarrow> nat \<Rightarrow> nat" where
  \<comment> \<open>What is left from an instant to the deadline, as the \<open>int\<close> of \<open>poll\<close>.\<close>
  "poll_ms deadline now = min ((deadline - now) div 1000000) (2 ^ 31 - 1)"

definition waits :: "nat \<Rightarrow> sys \<Rightarrow> sys \<Rightarrow> nat \<Rightarrow> bool" where
  \<comment> \<open>From \<open>s\<close> to \<open>t\<close> the port was polled \<open>n\<close> times, each time after a fresh reading of the clock that
    was before the deadline, for what was left of it.\<close>
  "waits deadline s t n \<longleftrightarrow>
     os_clock t = os_clock s \<and>
     polled t = polled s @ map (\<lambda>k. poll_ms deadline (os_clock s k)) [os_ticks s..<os_ticks s + n] \<and>
     (\<forall>k \<in> {os_ticks s..<os_ticks s + n}. os_clock s k < deadline)"

lemma polled_update [simp]:
  "polled (s\<lparr>os_ticks := a\<rparr>) = polled s" "polled (s\<lparr>os_polls := b\<rparr>) = polled s"
  "polled (s\<lparr>os_reads := c\<rparr>) = polled s" "polled (s\<lparr>inbuf := d\<rparr>) = polled s"
  "polled (log_call e s) = polled s @ (case e of OsPoll ms \<Rightarrow> [ms] | _ \<Rightarrow> [])"
  by (simp_all add: polled_def log_call_def map_filter_def split: os_call.split)

lemma waits_refl: "waits deadline s s 0"
  by (simp add: waits_def)

lemma waits_trans:
  assumes "waits deadline s u n" and "os_ticks u = os_ticks s + n" and "waits deadline u t m"
  shows "waits deadline s t (n + m)"
  using assms unfolding waits_def
  by (auto simp: upt_add_eq_append [of "os_ticks s" "os_ticks s + n" m] add.assoc [symmetric])

lemma wait_readable_waits:
  assumes "wait_readable (Some d) s = (x, t)"
  obtains (waited) "waits d s t 1" "os_ticks t = os_ticks s + 1" "x \<noteq> Inl Panic"
  | (late) "x = Inl (Err Timeout)" "waits d s t 0" "os_ticks t = os_ticks s + 1"
      "d \<le> os_clock s (os_ticks s)"
proof (cases "d \<le> os_clock s (os_ticks s)")
  case True
  with assms show thesis
    by (intro late) (auto simp: wait_readable_def instant_now_def seq_def waits_def)
next
  case False
  with assms show thesis
    by (intro waited)
      (auto simp: wait_readable_def instant_now_def poll_port_def seq_def waits_def poll_ms_def Let_def
        split: list.splits poll_answer.splits if_splits)
qed

lemma read_chunk_quiet:
  "read_chunk s = (x, t) \<Longrightarrow>
   os_ticks t = os_ticks s \<and> waits d s t 0 \<and> x \<noteq> Inl (Err Timeout) \<and> x \<noteq> Inl Panic"
  by (auto simp: read_chunk_def waits_def Let_def split: list.splits sum.splits)

lemma fill_buffer_waits:
  assumes "fill_buffer (Some d) s = (x, t)"
  obtains (waited) "waits d s t 1" "os_ticks t = os_ticks s + 1"
  | (late) "x = Inl (Err Timeout)" "waits d s t 0" "os_ticks t = os_ticks s + 1"
      "d \<le> os_clock s (os_ticks s)"
proof -
  obtain y u where u: "wait_readable (Some d) s = (y, u)" by force
  from u show thesis
  proof (cases rule: wait_readable_waits)
    case late
    with u assms that(2) show ?thesis by (simp add: fill_buffer_def seq_Inl)
  next
    case waited
    from assms u have "t = u \<or> (\<exists>z v. read_chunk u = (z, v) \<and> (t = v \<or> (\<exists>c. t = v\<lparr>inbuf := c\<rparr>)))"
      by (auto simp: fill_buffer_def elim!: seq_elim split: if_splits)
    then consider "t = u" | z v where "read_chunk u = (z, v)" "t = v \<or> (\<exists>c. t = v\<lparr>inbuf := c\<rparr>)"
      by blast
    then show ?thesis
    proof cases
      case 1
      with waited that(1) show ?thesis by simp
    next
      case 2
      with read_chunk_quiet [OF 2(1), of d] have "waits d u t 0" "os_ticks t = os_ticks u"
        by (auto simp: waits_def)
      with waited waits_trans [of d s u 1 t 0] that(1) show ?thesis by simp
    qed
  qed
qed

lemma read_message_loop_waits:
  "read_message_loop (Some d) s = (x, t) \<Longrightarrow>
   \<exists>n. waits d s t n \<and>
     (os_ticks t = os_ticks s + n \<or>
      x = Inl (Err Timeout) \<and> os_ticks t = os_ticks s + n + 1 \<and> d \<le> os_clock s (os_ticks s + n))"
proof (induction "Some d" s arbitrary: x t rule: read_message_loop.induct)
  case (1 s)
  consider (stay) "os_ticks t = os_ticks s" "waits d s t 0"
    | (stop) e where "fill_buffer (Some d) s = (Inl e, t)" "x = Inl e"
    | (fill) u where "buffered_frame (inbuf s) = Inr None" "fill_buffer (Some d) s = (Inr (), u)"
      "read_message_loop (Some d) u = (x, t)"
    using "1.prems"
    by (subst (asm) read_message_loop.simps)
      (auto simp: waits_def split: sum.splits option.splits elim!: seq_elim)
  then show ?case
  proof cases
    case stay
    then show ?thesis by (intro exI [of _ 0]) simp
  next
    case stop
    from stop(1) show ?thesis
    proof (cases rule: fill_buffer_waits)
      case waited
      then show ?thesis by (intro exI [of _ 1]) simp
    next
      case late
      with stop(2) show ?thesis by (intro exI [of _ 0]) simp
    qed
  next
    case fill
    from fill(2) have u: "waits d s u 1 \<and> os_ticks u = os_ticks s + 1"
      by (cases rule: fill_buffer_waits) simp_all
    obtain n where n: "waits d u t n"
      "os_ticks t = os_ticks u + n \<or> x = Inl (Err Timeout) \<and> os_ticks t = os_ticks u + n + 1 \<and>
        d \<le> os_clock u (os_ticks u + n)"
      using "1.hyps" [OF fill(1) refl fill(2,3)] by blast
    have "waits d s t (1 + n)" using u n(1) waits_trans by blast
    moreover from u have "os_clock u = os_clock s" by (simp add: waits_def)
    ultimately show ?thesis using u n(2) by (intro exI [of _ "1 + n"]) auto
  qed
qed

section \<open>Properties\<close>

text \<open>C8: Framing loses nothing, with no assumption on the environment: whatever the poll, read and
  clock answers, a call of \<open>read_message\<close> either takes exactly one well-formed frame (its length
  prefix is its length) off the front of the byte stream or, when it times out or fails, leaves every
  byte to the next call.\<close>

theorem read_message_loses_nothing:
  "case read_message timeout s of
     (Inr raw, t) \<Rightarrow> is_frame raw \<and> stream s = raw @ stream t
   | (Inl e, t) \<Rightarrow> stream t = stream s"
proof (cases "read_message timeout s")
  case (Pair x t)
  with read_message_stream [OF Pair] show ?thesis by (cases x) auto
qed

text \<open>C6: Framing refines its specification: when every read delivers data and no deadline is reached,
  \<open>read_message\<close> computes \<open>next_frame\<close> of the byte stream, so its result does not depend on how
  the bytes were cut into reads; it reports \<open>Blocked\<close> only when no complete frame is left.\<close>

theorem read_message_refines:
  assumes "prompt timeout s" and "fed s"
  shows "fst (read_message timeout s) = fst (next_frame (stream s)) \<and>
    stream (snd (read_message timeout s)) = snd (next_frame (stream s))"
proof -
  obtain t where t: "read_message timeout s = (fst (next_frame (stream s)), t)"
    using read_message_fed [OF assms] by blast
  note keeps = read_message_stream [OF t]
  show ?thesis
  proof (cases "fst (next_frame (stream s))")
    case (Inl e)
    then have "snd (next_frame (stream s)) = stream s"
      by (auto simp: next_frame_def split: sum.splits option.splits)
    with keeps(1) t Inl show ?thesis by simp
  next
    case (Inr raw)
    then have "stream s = raw @ snd (next_frame (stream s))"
      by (auto simp: next_frame_def split: sum.splits option.splits)
    with keeps(1) t Inr show ?thesis by simp
  qed
qed

theorem read_message_refines_witness:
  "fst (read_message None (quiet_sys\<lparr>os_reads := [Inr [16, 0, 0, 0, 2, 4, 0],
      Inr [0, 0, 16, 2, 4, 0, 0, 0, 1, 0, 0, 0, 0, 7]]\<rparr>)) =
     Inr [16, 0, 0, 0, 2, 4, 0, 0, 0, 16, 2, 4, 0, 0, 0, 1, 0, 0, 0, 0]"
proof -
  let ?s = "quiet_sys\<lparr>os_reads := [Inr [16, 0, 0, 0, 2, 4, 0],
      Inr [0, 0, 16, 2, 4, 0, 0, 0, 1, 0, 0, 0, 0, 7]]\<rparr>"
  have "stream ?s = [16, 0, 0, 0, 2, 4, 0, 0, 0, 16, 2, 4, 0, 0, 0, 1, 0, 0, 0, 0] @ [7]"
    by (simp add: stream_def quiet_sys_def)
  moreover have "is_frame [16, 0, 0, 0, 2, 4, 0, 0, 0, 16, 2, 4, 0, 0, 0, 1, 0, 0, 0, 0]"
    by (simp add: is_frame_def MAX_MESSAGE_LEN_def from_le32_def from_be32_def shift_in_def)
  ultimately have "next_frame (stream ?s) =
      (Inr [16, 0, 0, 0, 2, 4, 0, 0, 0, 16, 2, 4, 0, 0, 0, 1, 0, 0, 0, 0], [7])"
    using next_frame_append by metis
  then show ?thesis
    using read_message_refines [of None ?s] by (simp add: prompt_def fed_def quiet_sys_def)
qed

text \<open>C7: A message waits for its deadline and no longer, whatever the environment answers: \<open>read_message\<close>
  reads the clock once to fix the deadline, then once before each poll, polls only at a reading
  before the deadline and for exactly the milliseconds left (at most \<open>i32::MAX\<close>), and stops with
  \<open>Timeout\<close> at the first reading that is not.\<close>

theorem read_message_keeps_deadline:
  "let start = os_clock s (os_ticks s); deadline = start + timeout; first = os_ticks s + 1
   in case read_message (Some timeout) s of (x, t) \<Rightarrow> \<exists>n.
     polled t = polled s @
       map (\<lambda>k. min ((deadline - os_clock s k) div 1000000) (2 ^ 31 - 1)) [first..<first + n] \<and>
     (\<forall>k \<in> {first..<first + n}. os_clock s k < deadline) \<and>
     (os_ticks t = first + n \<or>
      x = Inl (Err Timeout) \<and> os_ticks t = first + n + 1 \<and> deadline \<le> os_clock s (first + n))"
proof (cases "read_message (Some timeout) s")
  case (Pair x t)
  let ?u = "s\<lparr>os_ticks := os_ticks s + 1\<rparr>" and ?d = "os_clock s (os_ticks s) + timeout"
  show ?thesis
  proof (cases "?d div nanos 1 \<le> 2 ^ 63 - 1")
    case True
    with Pair have "read_message_loop (Some ?d) ?u = (x, t)"
      by (simp add: read_message_def instant_now_def instant_add_def seq_def)
    from read_message_loop_waits [OF this] show ?thesis
      by (simp add: Pair waits_def poll_ms_def)
  next
    case False
    with Pair have "t = ?u" by (simp add: read_message_def instant_now_def instant_add_def seq_def)
    then show ?thesis by (simp add: Pair) 
  qed
qed

theorem read_message_keeps_deadline_witness:
  "let s = quiet_sys\<lparr>os_clock := nanos, os_polls := [PollReady 1], os_reads := [Inr [1]]\<rparr>;
       t = snd (read_message (Some (nanos 30)) s)
   in \<exists>n. polled t = map (\<lambda>k. min ((nanos 30 - nanos k) div 1000000) (2 ^ 31 - 1)) [1..<1 + n] \<and>
     (\<forall>k \<in> {1..<1 + n}. nanos k < nanos 30)"
  using read_message_keeps_deadline
    [of "quiet_sys\<lparr>os_clock := nanos, os_polls := [PollReady 1], os_reads := [Inr [1]]\<rparr>" "nanos 30"]
  by (auto simp: quiet_sys_def polled_def nanos_def Let_def split: prod.splits)

end
