(* ===== verification/Encoder.thy ===== *)
theory Encoder
  imports Wire
begin

text \<open>
  The encoder of \<open>src/src/codec.rs\<close>: \<open>pack\<close> and \<open>pack_string\<close>, and a reference layout
  (\<open>spec\<close>, \<open>field_bytes\<close>) against which the format-string interpreter is verified.

  The mutable format cursor (\<open>Vec<char>\<close> with \<open>remove(0)\<close>) and the output vector are passed and
  returned explicitly; the digits loop of \<open>pack_string\<close> is \<open>takeWhile\<close>/\<open>dropWhile\<close>.
\<close>

section \<open>The encoder\<close>

definition vec_resize :: "byte list \<Rightarrow> nat \<Rightarrow> ('e, byte list) res" where
  \<comment> \<open>\<open>Vec::resize(n, 0)\<close>: a capacity beyond \<open>isize::MAX\<close> bytes panics.\<close>
  "vec_resize out n =
     (if n > isize_max then Inl Panic else Inr (take n out @ replicate (n - length out) 0))"

fun le_digits :: "nat \<Rightarrow> byte list" where
  \<comment> \<open>The \<open>while remain > 0\<close> loop that collects the bytes of a long element count.\<close>
  "le_digits remain =
     (if remain = 0 then [] else of_nat (remain mod 256) # le_digits (remain div 256))"

declare le_digits.simps [simp del]

lemma le_digits_0 [simp]: "le_digits 0 = []"
  by (simp add: le_digits.simps)

definition length_field :: "nat \<Rightarrow> byte list" where
  "length_field elements =
     (if elements < 128 then [of_nat elements]
      else let bytes = le_digits elements in (0x80 OR of_nat (length bytes)) # rev bytes)"

definition string_tag :: "nat \<Rightarrow> byte" where
  "string_tag elem_size =
     (if elem_size = 1 then TAG_STRING_U8
      else if elem_size = 2 then TAG_STRING_U16
      else TAG_STRING_U32)"

definition pack_string ::
    "byte list \<Rightarrow> nat \<Rightarrow> string \<Rightarrow> byte list \<Rightarrow> (codec_error, string \<times> byte list) res" where
  "pack_string value elem_size fmt out =
     (let length_str = takeWhile is_digit fmt; fmt' = dropWhile is_digit fmt in
      if length_str = [] then Inl (Err MissingLength) else
      case parse_usize length_str of
        None \<Rightarrow> Inl (Err MissingLength)
      | Some len \<Rightarrow>
          if length value mod elem_size \<noteq> 0
          then Inl (Err (StringOverflow (length value) (length value))) else
          let elements = length value div elem_size in
          if elements > len then Inl (Err (StringOverflow elements len)) else
          let count = of_nat len * of_nat elem_size :: usize;
              padding = count - of_nat (length value);
              out' = out @ [string_tag elem_size] @ length_field elements
                @ asn_int (ucast count) @ asn_int (ucast padding) @ value
          in rbind (vec_resize out' (unat (of_nat (length out') + padding)))
               (\<lambda>out''. Inr (fmt', out'')))"

definition int_bytes :: "nat \<Rightarrow> u32 \<Rightarrow> byte list" where
  \<comment> \<open>The bytes pushed for \<open>B\<close>, \<open>H\<close> and \<open>L\<close>.\<close>
  "int_bytes width v = [TAG_INT, of_nat width] @ drop (4 - width) (to_be32 v)"

definition elem_width :: "char \<Rightarrow> nat option" where
  "elem_width c =
     (if c = CHR ''B'' then Some 1
      else if c = CHR ''H'' then Some 2
      else if c = CHR ''L'' then Some 4
      else None)"

definition pack_item ::
    "char \<Rightarrow> string \<Rightarrow> arg \<Rightarrow> byte list \<Rightarrow> (codec_error, string \<times> byte list) res" where
  \<comment> \<open>The \<open>match ch\<close> of the loop of \<open>pack\<close>: the remaining format and the extended output.\<close>
  "pack_item ch fmt arg out =
     (case elem_width ch of
        Some width \<Rightarrow>
          (case arg of
             ArgBytes _ \<Rightarrow> Inl (Err WrongArgument)
           | ArgInt v \<Rightarrow> Inr (fmt, out @ int_bytes width v))
      | None \<Rightarrow>
          if ch = CHR ''s'' then
            (case arg of
               ArgInt _ \<Rightarrow> Inl (Err WrongArgument)
             | ArgBytes v \<Rightarrow> pack_string v 1 fmt out)
          else if ch = CHR ''S'' then
            (case fmt of
               [] \<Rightarrow> Inl (Err MissingLength)
             | elem # fmt' \<Rightarrow>
                 (case elem_width elem of
                    None \<Rightarrow> Inl (Err (BadFormat elem))
                  | Some elem_size \<Rightarrow>
                      (case arg of
                         ArgInt _ \<Rightarrow> Inl (Err WrongArgument)
                       | ArgBytes v \<Rightarrow> pack_string v elem_size fmt' out)))
          else Inl (Err (BadFormat ch)))"

lemma rbind_cong [fundef_cong]:
  "r = r' \<Longrightarrow> (\<And>a. r' = Inr a \<Longrightarrow> f a = f' a) \<Longrightarrow> rbind r f = rbind r' f'"
  by (cases r') auto

lemma pack_string_fmt:
  "pack_string v es fmt out = Inr (fmt', out') \<Longrightarrow> fmt' = dropWhile is_digit fmt"
  by (auto simp: pack_string_def Let_def rbind_eq_Inr split: if_splits option.splits)

lemma pack_item_shrinks: "pack_item ch fmt a out = Inr (fmt', out') \<Longrightarrow> length fmt' \<le> length fmt"
  by (auto simp: pack_item_def length_dropWhile_le le_SucI dest!: pack_string_fmt
      split: option.splits arg.splits if_splits list.splits)

function pack_loop ::
    "string \<Rightarrow> arg list \<Rightarrow> byte list \<Rightarrow> (codec_error, arg list \<times> byte list) res" where
  "pack_loop [] args out = Inr (args, out)"
| "pack_loop (ch # fmt) [] out = Inl (Err MissingArgument)"
| "pack_loop (ch # fmt) (a # args) out =
     rbind (pack_item ch fmt a out) (\<lambda>(fmt', out'). pack_loop fmt' args out')"
  by pat_completeness auto
termination
  by (relation "measure (\<lambda>(fmt, args, out). length args)") auto

definition pack :: "string \<Rightarrow> arg list \<Rightarrow> (codec_error, byte list) res" where
  "pack fmt args =
     rbind (pack_loop fmt args []) (\<lambda>(rest, out).
       if rest \<noteq> [] then Inl (Err TooManyArguments) else Inr out)"

section \<open>A reference layout\<close>

text \<open>
  A format string is the rendering of a list of field descriptions; the encoder is specified by
  the concatenation of the fields' bytes.
\<close>

datatype spec = IntSpec char nat | ByteStr nat | ElemStr char nat nat

fun spec_ok :: "spec \<Rightarrow> bool" where
  "spec_ok (IntSpec c w) \<longleftrightarrow> elem_width c = Some w"
| "spec_ok (ByteStr cap) \<longleftrightarrow> cap < 2 ^ 32"
| "spec_ok (ElemStr c es cap) \<longleftrightarrow> elem_width c = Some es \<and> cap * es < 2 ^ 32"

fun spec_text :: "spec \<Rightarrow> string" where
  "spec_text (IntSpec c w) = [c]"
| "spec_text (ByteStr cap) = ''s'' @ dec_string cap"
| "spec_text (ElemStr c es cap) = ''S'' @ [c] @ dec_string cap"

definition string_bytes :: "nat \<Rightarrow> nat \<Rightarrow> byte list \<Rightarrow> byte list" where
  "string_bytes es cap value =
     [string_tag es] @ length_field (length value div es)
       @ asn_int (of_nat (cap * es)) @ asn_int (of_nat (cap * es - length value))
       @ value @ replicate (cap * es - length value) 0"

fun field_bytes :: "spec \<Rightarrow> arg \<Rightarrow> byte list" where
  "field_bytes (IntSpec c w) (ArgInt v) = int_bytes w v"
| "field_bytes (ByteStr cap) (ArgBytes v) = string_bytes 1 cap v"
| "field_bytes (ElemStr c es cap) (ArgBytes v) = string_bytes es cap v"
| "field_bytes _ _ = []"

definition fits :: "nat \<Rightarrow> nat \<Rightarrow> byte list \<Rightarrow> bool" where
  "fits es cap value \<longleftrightarrow> length value mod es = 0 \<and> length value div es \<le> cap"

fun arg_ok :: "spec \<Rightarrow> arg \<Rightarrow> bool" where
  "arg_ok (IntSpec c w) (ArgInt v) \<longleftrightarrow> True"
| "arg_ok (ByteStr cap) (ArgBytes v) \<longleftrightarrow> fits 1 cap v"
| "arg_ok (ElemStr c es cap) (ArgBytes v) \<longleftrightarrow> fits es cap v"
| "arg_ok _ _ \<longleftrightarrow> False"

section \<open>The encoder meets the reference layout\<close>

lemma elem_width_cases: "elem_width c = Some w \<Longrightarrow> w = 1 \<or> w = 2 \<or> w = 4"
  by (auto simp: elem_width_def split: if_splits)

lemma elem_width_not_digit: "elem_width c = Some w \<Longrightarrow> \<not> is_digit c"
  by (auto simp: elem_width_def is_digit_def split: if_splits)

definition no_digit_first :: "string \<Rightarrow> bool" where
  "no_digit_first s \<longleftrightarrow> (s = [] \<or> \<not> is_digit (hd s))"

lemma digits_then_rest:
  assumes "no_digit_first rest"
  shows "takeWhile is_digit (dec_string n @ rest) = dec_string n"
    and "dropWhile is_digit (dec_string n @ rest) = rest"
  using assms dec_string_digits [of n]
  by (cases rest; auto simp: no_digit_first_def takeWhile_append2 dropWhile_append2)+

lemma ucast_of_nat_usize: "(ucast (of_nat n :: usize) :: u32) = of_nat n"
  by (rule bit_word_eqI) (simp add: bit_simps)

lemma length_string_bytes:
  "length value \<le> cap * es \<Longrightarrow>
   length (string_bytes es cap value) = 13 + length (length_field (length value div es)) + cap * es"
  by (simp add: string_bytes_def)

lemma fits_le: "fits es cap v \<Longrightarrow> length v \<le> cap * es"
  by (metis fits_def add.right_neutral div_mult_mod_eq mult_le_mono1)

lemma vec_resize_extend:
  assumes "length out + n \<le> isize_max"
  shows "vec_resize out (unat (of_nat (length out) + of_nat n :: usize)) = Inr (out @ replicate n 0)"
proof -
  have "unat (of_nat (length out + n) :: usize) = length out + n"
    using assms by (simp only: unat_of_nat) simp
  then have "unat (of_nat (length out) + of_nat n :: usize) = length out + n"
    by simp
  with assms show ?thesis by (simp add: vec_resize_def)
qed

lemma pack_string_eq:
  assumes cap: "cap * es < 2 ^ 32" and es: "es = 1 \<or> es = 2 \<or> es = 4" and fit: "fits es cap value"
    and rest: "no_digit_first rest"
    and room: "length out + length (string_bytes es cap value) \<le> isize_max"
  shows "pack_string value es (dec_string cap @ rest) out =
    Inr (rest, out @ string_bytes es cap value)"
proof -
  let ?pad = "cap * es - length value"
  let ?out = "out @ [string_tag es] @ length_field (length value div es)
      @ asn_int (of_nat (cap * es)) @ asn_int (of_nat ?pad) @ value"
  have le: "length value \<le> cap * es" using fit by (rule fits_le)
  have "cap < usize_limit" using es cap by auto
  then have parse: "parse_usize (dec_string cap) = Some cap"
    by (rule parse_usize_dec_string)
  have count: "(of_nat cap * of_nat es :: usize) = of_nat (cap * es)" by simp
  have pad: "(of_nat (cap * es) - of_nat (length value) :: usize) = of_nat ?pad"
    using le by (simp add: of_nat_diff)
  have "length ?out + ?pad = length out + length (string_bytes es cap value)"
    using le by (simp add: length_string_bytes)
  then have total: "length ?out + ?pad \<le> isize_max" using room by simp
  then have grow: "vec_resize ?out (unat (of_nat (length ?out) + of_nat ?pad :: usize)) =
      (Inr (?out @ replicate ?pad 0) :: (codec_error, byte list) res)"
    by (rule vec_resize_extend)
  show ?thesis
    using fit
    unfolding pack_string_def Let_def digits_then_rest [OF rest] parse count pad
      ucast_of_nat_usize option.case grow rbind_simps
    by (simp add: fits_def string_bytes_def)
qed

definition render :: "spec list \<Rightarrow> string" where
  "render sps = concat (map spec_text sps)"

definition layout :: "spec list \<Rightarrow> arg list \<Rightarrow> byte list" where
  "layout sps args = concat (map2 field_bytes sps args)"

lemma render_simps [simp]: "render [] = []" "render (sp # sps) = spec_text sp @ render sps"
  by (simp_all add: render_def)

lemma layout_simps [simp]:
  "layout [] args = []" "layout sps [] = []"
  "layout (sp # sps) (a # args) = field_bytes sp a @ layout sps args"
  by (simp_all add: layout_def)

lemma layout_append:
  "length sps = length args \<Longrightarrow> layout (sps @ sps') (args @ args') = layout sps args @ layout sps' args'"
  by (simp add: layout_def)

lemma spec_text_head:
  assumes "spec_ok sp"
  obtains ch fmt where "spec_text sp = ch # fmt" "\<not> is_digit ch"
  using assms
  by (cases sp) (auto simp: is_digit_def dest: elem_width_not_digit)

lemma no_digit_first_render: "\<forall>sp \<in> set sps. spec_ok sp \<Longrightarrow> no_digit_first (render sps)"
  by (cases sps) (auto simp: no_digit_first_def elim: spec_text_head)

lemma pack_item_eq:
  assumes "spec_ok sp" and "arg_ok sp a" and "no_digit_first rest"
    and "length out + length (field_bytes sp a) \<le> isize_max"
    and "spec_text sp @ rest = ch # fmt"
  shows "pack_item ch fmt a out = Inr (rest, out @ field_bytes sp a)"
proof (cases "(sp, a)" rule: field_bytes.cases)
  case (1 c w v)
  with assms show ?thesis by (auto simp: pack_item_def)
next
  case (2 cap v)
  with assms show ?thesis
    using pack_string_eq [of cap 1 v rest out]
    by (auto simp: pack_item_def elem_width_def)
next
  case (3 c es cap v)
  with assms have "pack_string v es (dec_string cap @ rest) out =
      Inr (rest, out @ string_bytes es cap v)"
    by (intro pack_string_eq) (auto dest: elem_width_cases)
  with 3 assms show ?thesis by (auto simp: pack_item_def elem_width_def split: if_splits)
qed (use assms in auto)

lemma pack_loop_prefix:
  assumes "list_all2 arg_ok sps args" and "\<forall>sp \<in> set sps. spec_ok sp"
    and "no_digit_first rest" and "length out + length (layout sps args) \<le> isize_max"
  shows "pack_loop (render sps @ rest) (args @ more) out = pack_loop rest more (out @ layout sps args)"
  using assms
proof (induction sps args arbitrary: out rule: list_all2_induct)
  case Nil
  then show ?case by simp
next
  case (Cons sp sps a args)
  from Cons.prems(1) obtain ch fmt where head: "spec_text sp = ch # fmt"
    by (auto elim: spec_text_head)
  have nd: "no_digit_first (render sps @ rest)"
    using Cons.prems no_digit_first_render [of sps]
    by (cases "render sps") (auto simp: no_digit_first_def)
  have "pack_item ch (fmt @ render sps @ rest) a out =
      Inr (render sps @ rest, out @ field_bytes sp a)"
    by (rule pack_item_eq [OF _ Cons.hyps(1) nd]) (use Cons.prems head in auto)
  with Cons.prems Cons.IH [of "out @ field_bytes sp a"] head show ?case by simp
qed

lemma pack_render:
  assumes "list_all2 arg_ok sps args" and "\<forall>sp \<in> set sps. spec_ok sp"
    and "length (layout sps args) \<le> isize_max"
  shows "pack (render sps) args = Inr (layout sps args)"
  using pack_loop_prefix [OF assms(1,2), of "[]" "[]" "[]"] assms(3)
  by (simp add: pack_def no_digit_first_def)

lemma pack_render_short:
  assumes "list_all2 arg_ok sps args" and "\<forall>sp \<in> set (sps @ sps'). spec_ok sp" and "sps' \<noteq> []"
    and "length (layout sps args) \<le> isize_max"
  shows "pack (render (sps @ sps')) args = Inl (Err MissingArgument)"
proof -
  from assms(2,3) obtain ch fmt where "render sps' = ch # fmt"
    by (cases sps') (auto elim: spec_text_head)
  moreover have "no_digit_first (render sps')"
    using assms(2) by (intro no_digit_first_render) auto
  moreover have "render (sps @ sps') = render sps @ render sps'" by (simp add: render_def)
  ultimately show ?thesis
    using pack_loop_prefix [OF assms(1), of "render sps'" "[]" "[]"] assms(2,4)
    by (simp add: pack_def)
qed

lemma pack_render_long:
  assumes "list_all2 arg_ok sps args" and "\<forall>sp \<in> set sps. spec_ok sp" and "more \<noteq> []"
    and "length (layout sps args) \<le> isize_max"
  shows "pack (render sps) (args @ more) = Inl (Err TooManyArguments)"
  using pack_loop_prefix [OF assms(1,2), of "[]" "[]" more] assms(3,4)
  by (simp add: pack_def no_digit_first_def)

end
