(* ===== verification/Codec.thy ===== *)
theory Codec
  imports Encoder Decoder
begin

text \<open>
  The two halves of \<open>src/src/codec.rs\<close> against each other: what the decoder makes of the bytes the
  encoder writes.  The locale \<open>wire_field\<close> is the contract of one field (its encoder, its decoder
  and the view the decoder has of a value); integers, long lengths and strings are its instances.
\<close>

section \<open>The contract of a field\<close>

locale wire_field = decoder dec
  for dec :: "(reader, codec_error, 'b) prog" +
  fixes enc :: "'a \<Rightarrow> byte list" and view :: "'a \<Rightarrow> 'b" and ok :: "'a \<Rightarrow> bool"
  assumes decodes: "ok a \<Longrightarrow>
    dec \<lparr>rd_data = enc a, rd_pos = 0\<rparr> = (Inr (view a), \<lparr>rd_data = enc a, rd_pos = length (enc a)\<rparr>)"
begin

text \<open>A field is read back wherever it stands in a buffer.\<close>

lemma anywhere:
  assumes "ok a" and "length (pre @ enc a @ post) \<le> isize_max"
  shows "dec \<lparr>rd_data = pre @ enc a @ post, rd_pos = length pre\<rparr> =
    (Inr (view a), \<lparr>rd_data = pre @ enc a @ post, rd_pos = length pre + length (enc a)\<rparr>)"
proof -
  have "same_window (enc a) 0 (pre @ enc a @ post) (length pre) (length (enc a))"
    by (simp add: same_window_def)
  then show ?thesis
    using local [OF decodes [OF assms(1)]] assms(2) by simp
qed

end

section \<open>Integers\<close>

lemma take_be_run:
  "take_be (length bs) v \<lparr>rd_data = pre @ bs @ post, rd_pos = length pre\<rparr> =
    (Inr (foldl shift_in v bs), \<lparr>rd_data = pre @ bs @ post, rd_pos = length pre + length bs\<rparr>)"
proof (induction bs arbitrary: v pre)
  case Nil
  then show ?case by simp
next
  case (Cons b bs)
  from Cons.IH [of "shift_in v b" "pre @ [b]"] show ?case
    by (simp add: seq_def take_u8_eq nth_append)
qed

lemma foldl_shift_in_low:
  assumes "w = 1 \<or> w = 2 \<or> w = 4"
  shows "foldl shift_in 0 (drop (4 - w) (to_be32 v)) = take_bit (8 * w) v"
proof (rule bit_word_eqI)
  fix n
  assume n: "n < LENGTH(32)"
  consider "n < 8" | "8 \<le> n" "n < 16" | "16 \<le> n" "n < 24" | "24 \<le> n"
    by linarith
  then show "bit (foldl shift_in 0 (drop (4 - w) (to_be32 v))) n = bit (take_bit (8 * w) v) n"
    using n assms by cases (auto simp: to_be32_def shift_in_def bit_simps)
qed

lemma take_asn_int_int_bytes:
  assumes "w = 1 \<or> w = 2 \<or> w = 4"
  shows "take_asn_int \<lparr>rd_data = int_bytes w v, rd_pos = 0\<rparr> =
    (Inr (take_bit (8 * w) v), \<lparr>rd_data = int_bytes w v, rd_pos = length (int_bytes w v)\<rparr>)"
proof -
  let ?bs = "drop (4 - w) (to_be32 v)"
  have len: "length ?bs = w" using assms by auto
  have w: "unat (of_nat w :: byte) = w" "(of_nat w :: byte) \<noteq> 0" "\<not> (of_nat w :: byte) > 4"
    using assms by auto
  have "take_be w 0 \<lparr>rd_data = int_bytes w v, rd_pos = Suc (Suc 0)\<rparr> =
      (Inr (take_bit (8 * w) v), \<lparr>rd_data = int_bytes w v, rd_pos = 2 + w\<rparr>)"
    using take_be_run [of ?bs 0 "[TAG_INT, of_nat w]" "[]"] len
    by (simp add: int_bytes_def foldl_shift_in_low [OF assms] del: drop_eq_Nil)
  with w show ?thesis
    by (simp add: take_asn_int_def seq_def take_u8_eq int_bytes_def len
        del: length_drop)
qed

interpretation int_wire: wire_field take_asn_int "\<lambda>(w, v). int_bytes w v"
    "\<lambda>(w, v). take_bit (8 * w) v" "\<lambda>(w, v). w = 1 \<or> w = 2 \<or> w = 4"
  by unfold_locales (auto simp: take_asn_int_int_bytes)

lemma asn_int_int_bytes: "asn_int v = int_bytes 4 v"
  by (simp add: asn_int_def int_bytes_def)

interpretation asn_wire: wire_field take_asn_int asn_int "\<lambda>v. v" "\<lambda>_. True"
  by unfold_locales (simp add: asn_int_int_bytes take_asn_int_int_bytes take_bit_word_eq_self)

section \<open>Element counts\<close>

fun le_value :: "byte list \<Rightarrow> nat" where
  "le_value [] = 0"
| "le_value (b # bs) = unat b + 256 * le_value bs"

lemma le_value_le_digits [simp]: "le_value (le_digits n) = n"
proof (induction n rule: le_digits.induct)
  case (1 n)
  then show ?case
    by (subst le_digits.simps) (auto simp: unat_of_nat)
qed

lemma le_value_bound: "le_value bs < 256 ^ length bs"
proof (induction bs)
  case (Cons b bs)
  have "unat b < 256" using unsigned_less [of b, where 'a = nat] by simp
  with Cons show ?case by simp
qed simp

lemma length_le_digits: "n < 256 ^ k \<Longrightarrow> length (le_digits n) \<le> k"
proof (induction k arbitrary: n)
  case 0
  then show ?case by (subst le_digits.simps) simp
next
  case (Suc k)
  then have "n div 256 < 256 ^ k" by (simp add: less_mult_imp_div_less mult.commute)
  from Suc.IH [OF this] show ?case by (subst le_digits.simps) simp
qed

lemma le_digits_nonempty: "0 < n \<Longrightarrow> le_digits n \<noteq> []"
  by (subst le_digits.simps) simp

definition misread :: "nat \<Rightarrow> nat" where
  \<comment> \<open>What the decoder makes of a long count: the encoder writes its bytes big-endian, the decoder
    reads them little-endian.\<close>
  "misread n = le_value (rev (le_digits n))"

definition decoded_length :: "nat \<Rightarrow> nat" where
  "decoded_length n = (if n < 128 then n else misread n)"

lemma push_bit_or_of_nat:
  "push_bit k (ucast b) OR push_bit (k + 8) (of_nat m) =
    (push_bit k (of_nat (unat b + 256 * m)) :: usize)" for b :: byte
proof -
  have "ucast b OR push_bit 8 (of_nat m) = (ucast b + push_bit 8 (of_nat m) :: usize)"
    by (rule disjunctive_add [symmetric]) (auto simp: bit_simps dest: bit_imp_le_length)
  also have "\<dots> = of_nat (unat b + 256 * m)"
    by (simp add: push_bit_eq_mult)
  finally have sum: "(of_nat (unat b + 256 * m) :: usize) = ucast b OR push_bit 8 (of_nat m)" ..
  show ?thesis
    unfolding sum by (simp add: push_bit_or push_bit_push_bit add.commute)
qed

lemma take_le_run:
  assumes "i + length bs \<le> 8"
  shows "take_le (length bs) i acc \<lparr>rd_data = pre @ bs @ post, rd_pos = length pre\<rparr> =
    (Inr (acc OR push_bit (8 * i) (of_nat (le_value bs))),
     \<lparr>rd_data = pre @ bs @ post, rd_pos = length pre + length bs\<rparr>)"
  using assms
proof (induction bs arbitrary: i acc pre)
  case Nil
  then show ?case by simp
next
  case (Cons b bs)
  have i: "i * 8 mod 64 = 8 * i" using Cons.prems by simp
  show ?case
    using Cons.IH [of "Suc i" "acc OR push_bit (8 * i) (ucast b)" "pre @ [b]"] Cons.prems
      push_bit_or_of_nat [of "8 * i" b "le_value bs"]
    by (simp add: seq_def take_u8_eq nth_append i or.assoc add.commute
        del: of_nat_add of_nat_mult)
qed

lemma short_count:
  assumes "n < 128"
  shows "(ucast (of_nat n :: byte) :: usize) = of_nat n" and "(of_nat n :: usize) AND 0x80 = 0"
proof -
  have "unat (of_nat n :: byte) = n" using assms by (simp add: unat_of_nat)
  then show "(ucast (of_nat n :: byte) :: usize) = of_nat n"
    by (metis of_nat_unat)
  have "take_bit 7 (of_nat n :: usize) = of_nat n"
    using assms by (simp add: take_bit_of_nat take_bit_nat_eq_self)
  then have "\<not> bit (of_nat n :: usize) 7"
    by (metis bit_take_bit_iff less_irrefl)
  then show "(of_nat n :: usize) AND 0x80 = 0"
    by (simp add: bit_iff_and_push_bit_not_eq_0 push_bit_eq_mult)
qed

lemma long_count:
  assumes "0 < k" and "k \<le> 8"
  shows "(ucast (0x80 OR of_nat k :: byte) :: usize) AND 0x80 \<noteq> 0"
    and "unat ((ucast (0x80 OR of_nat k :: byte) :: usize) AND 0x0f) = k"
proof -
  have "k \<in> {1, 2, 3, 4, 5, 6, 7, 8}" using assms by auto
  then show "(ucast (0x80 OR of_nat k :: byte) :: usize) AND 0x80 \<noteq> 0"
    and "unat ((ucast (0x80 OR of_nat k :: byte) :: usize) AND 0x0f) = k"
    by auto
qed

lemma take_length_length_field:
  assumes "n < usize_limit"
  shows "take_length \<lparr>rd_data = length_field n, rd_pos = 0\<rparr> =
    (Inr (of_nat (decoded_length n)),
     \<lparr>rd_data = length_field n, rd_pos = length (length_field n)\<rparr>)"
proof (cases "n < 128")
  case True
  then show ?thesis
    by (simp add: take_length_def seq_def take_u8_eq length_field_def decoded_length_def
        short_count Let_def)
next
  case False
  let ?bs = "rev (le_digits n)"
  have k: "0 < length ?bs" "length ?bs \<le> 8"
    using False assms le_digits_nonempty [of n] length_le_digits [of n 8] by simp_all
  have "take_le (length ?bs) 0 0
      \<lparr>rd_data = (0x80 OR of_nat (length ?bs)) # ?bs, rd_pos = Suc 0\<rparr> =
      (Inr (of_nat (misread n)),
       \<lparr>rd_data = (0x80 OR of_nat (length ?bs)) # ?bs, rd_pos = Suc (length ?bs)\<rparr>)"
    using take_le_run [of 0 ?bs 0 "[0x80 OR of_nat (length ?bs)]" "[]"] k
    by (simp add: misread_def)
  then show ?thesis
    using False long_count [OF k]
    by (simp add: take_length_def seq_def take_u8_eq length_field_def decoded_length_def Let_def)
qed

interpretation length_wire: wire_field take_length length_field
    "\<lambda>n. of_nat (decoded_length n)" "\<lambda>n. n < usize_limit"
  by (intro wire_field.intro decoder_take_length wire_field_axioms.intro take_length_length_field)

section \<open>Strings\<close>

lemma elem_size_of_string_tag:
  "es = 1 \<or> es = 2 \<or> es = 4 \<Longrightarrow> elem_size_of (string_tag es) = Some (of_nat es)"
  by (auto simp: elem_size_of_def string_tag_def tag_defs)

lemma take_bytes_run:
  "length (pre @ bs @ post) \<le> isize_max \<Longrightarrow>
   take_bytes (length bs) \<lparr>rd_data = pre @ bs @ post, rd_pos = length pre\<rparr> =
    (Inr bs, \<lparr>rd_data = pre @ bs @ post, rd_pos = length pre + length bs\<rparr>)"
  by (simp add: take_bytes_def checked_add_def)

lemma take_bytes_end:
  assumes "length d \<le> isize_max" and "p + n = length d"
  shows "take_bytes n \<lparr>rd_data = d, rd_pos = p\<rparr> =
    (Inr (drop p d), \<lparr>rd_data = d, rd_pos = length d\<rparr>)"
  using assms by (simp add: take_bytes_def checked_add_def)

lemma length_length_field: "n < usize_limit \<Longrightarrow> length (length_field n) \<le> 9"
  using length_le_digits [of n 8] by (simp add: length_field_def Let_def)

text \<open>The header of a string field, up to the check of its declared count.\<close>

lemma take_string_header:
  assumes es: "es = 1 \<or> es = 2 \<or> es = 4" and cap: "cap * es < 2 ^ 32" and fit: "fits es cap value"
  defines "d \<equiv> string_bytes es cap value" and "pad \<equiv> cap * es - length value"
    and "n \<equiv> decoded_length (length value div es)"
    and "at \<equiv> 13 + length (length_field (length value div es))"
  shows "take_string \<lparr>rd_data = d, rd_pos = 0\<rparr> =
    (let valid = of_nat n * of_nat es :: usize in
     if of_nat (cap * es) \<noteq> (0 :: usize) \<and> of_nat (cap * es) \<noteq> valid + of_nat pad
     then (Inl (Err (StringLengthMismatch (cap * es) (unat valid) pad)),
           \<lparr>rd_data = d, rd_pos = at\<rparr>)
     else seq (take_bytes (unat valid)) (\<lambda>payload. seq (take_bytes pad) (\<lambda>_. ret payload))
            \<lparr>rd_data = d, rd_pos = at\<rparr>)"
proof -
  define lf where "lf = length_field (length value div es)"
  define a1 a2 tail where "a1 = asn_int (of_nat (cap * es))" and "a2 = asn_int (of_nat pad)"
    and "tail = value @ replicate pad 0"
  have small: "length value div es < usize_limit" "length value \<le> cap * es"
    using fits_le [OF fit] cap order_trans [OF div_le_dividend [of "length value" es]]
    by (auto intro: le_less_trans [OF div_le_dividend])
  have d: "d = [string_tag es] @ lf @ a1 @ a2 @ tail"
    by (simp add: d_def string_bytes_def lf_def a1_def a2_def tail_def pad_def)
  have lens: "length lf \<le> 9" "length a1 = 6" "length a2 = 6" "length tail = cap * es"
    using small length_length_field [of "length value div es"]
    by (simp_all add: lf_def a1_def a2_def tail_def pad_def)
  then have room: "length d \<le> isize_max" using cap by (simp add: d)
  have words: "unat (of_nat (cap * es) :: u32) = cap * es" "unat (of_nat pad :: u32) = pad"
    "unat (of_nat (cap * es) :: usize) = cap * es" "unat (of_nat pad :: usize) = pad"
    using cap by (simp_all add: unat_of_nat pad_def del: of_nat_mult)
  then have casts: "(ucast (of_nat (cap * es) :: u32) :: usize) = of_nat (cap * es)"
    "(ucast (of_nat pad :: u32) :: usize) = of_nat pad"
    by (metis of_nat_unat)+
  have tag: "take_u8 \<lparr>rd_data = d, rd_pos = 0\<rparr> = (Inr (string_tag es), \<lparr>rd_data = d, rd_pos = Suc 0\<rparr>)"
    by (simp add: take_u8_eq d)
  have len: "take_length \<lparr>rd_data = d, rd_pos = Suc 0\<rparr> =
      (Inr (of_nat n), \<lparr>rd_data = d, rd_pos = Suc (length lf)\<rparr>)"
    using length_wire.anywhere [OF small(1), of "[string_tag es]" "a1 @ a2 @ tail"] room
    by (simp add: d lf_def n_def)
  have count: "take_asn_int \<lparr>rd_data = d, rd_pos = Suc (length lf)\<rparr> =
      (Inr (of_nat (cap * es)), \<lparr>rd_data = d, rd_pos = 7 + length lf\<rparr>)"
    using asn_wire.anywhere [where a = "of_nat (cap * es)" and pre = "[string_tag es] @ lf"
          and post = "a2 @ tail"] room lens
    by (simp add: d a1_def)
  have padding: "take_asn_int \<lparr>rd_data = d, rd_pos = 7 + length lf\<rparr> =
      (Inr (of_nat pad), \<lparr>rd_data = d, rd_pos = at\<rparr>)"
    using asn_wire.anywhere [where a = "of_nat pad" and pre = "[string_tag es] @ lf @ a1"
          and post = tail] room lens
    by (simp add: d a2_def at_def flip: lf_def)
  show ?thesis
    unfolding take_string_def
    by (simp add: seq_Inr tag len count padding elem_size_of_string_tag [OF es] Let_def casts words
        del: of_nat_mult)
qed

definition readable :: "nat \<Rightarrow> bool" where
  \<comment> \<open>The element counts that survive the encoder's and the decoder's byte orders.\<close>
  "readable n \<longleftrightarrow> decoded_length n = n"

lemma length_string_bytes_le:
  assumes "cap * es < 2 ^ 32" and "fits es cap value"
  shows "length (string_bytes es cap value) \<le> 22 + cap * es"
    and "length (string_bytes es cap value) =
      13 + length (length_field (length value div es)) + cap * es"
proof -
  have le: "length value \<le> cap * es" using assms(2) by (rule fits_le)
  then show "length (string_bytes es cap value) =
      13 + length (length_field (length value div es)) + cap * es"
    by (rule length_string_bytes)
  moreover have "length value div es < usize_limit"
    using le assms(1) by (auto intro: le_less_trans [OF div_le_dividend])
  ultimately show "length (string_bytes es cap value) \<le> 22 + cap * es"
    using length_length_field [of "length value div es"] by simp
qed

lemma take_string_readable:
  assumes es: "es = 1 \<or> es = 2 \<or> es = 4" and cap: "cap * es < 2 ^ 32" and fit: "fits es cap value"
    and readable: "readable (length value div es)"
  shows "take_string \<lparr>rd_data = string_bytes es cap value, rd_pos = 0\<rparr> =
    (Inr value, \<lparr>rd_data = string_bytes es cap value,
       rd_pos = length (string_bytes es cap value)\<rparr>)"
proof -
  define d where "d = string_bytes es cap value"
  define pre pad where "pre = [string_tag es] @ length_field (length value div es)
      @ asn_int (of_nat (cap * es)) @ asn_int (of_nat (cap * es - length value))"
    and "pad = cap * es - length value"
  have d: "d = pre @ value @ replicate pad 0" by (simp add: d_def string_bytes_def pre_def pad_def)
  have pre: "length pre = 13 + length (length_field (length value div es))" by (simp add: pre_def)
  have room: "length (pre @ value @ replicate pad 0) \<le> isize_max"
    using length_string_bytes_le(1) [OF cap fit] cap by (simp flip: d d_def)
  have le: "length value \<le> cap * es" using fit by (rule fits_le)
  have valid: "(of_nat (length value div es) * of_nat es :: usize) = of_nat (length value)"
    using fit by (simp add: fits_def flip: of_nat_mult) (metis add.right_neutral div_mult_mod_eq)
  have "unat (of_nat (length value) :: usize) = length value"
    using le cap by (simp add: unat_of_nat)
  moreover have "take_bytes (length value) \<lparr>rd_data = d, rd_pos = length pre\<rparr> =
      (Inr value, \<lparr>rd_data = d, rd_pos = length pre + length value\<rparr>)"
    unfolding d using room by (rule take_bytes_run)
  moreover have "take_bytes pad \<lparr>rd_data = d, rd_pos = length pre + length value\<rparr> =
      (Inr (replicate pad 0), \<lparr>rd_data = d, rd_pos = length d\<rparr>)"
    using take_bytes_end [of d "length pre + length value" pad] room by (simp add: d)
  moreover have "(of_nat (length value) + of_nat pad :: usize) = of_nat (cap * es)"
    using le by (simp add: pad_def of_nat_diff)
  ultimately show ?thesis
    using take_string_header [OF es cap fit] readable
    by (simp add: readable_def valid Let_def seq_Inr flip: d_def pad_def pre)
qed

lemma take_string_unreadable:
  assumes es: "es = 1 \<or> es = 2 \<or> es = 4" and cap: "cap * es < 2 ^ 32" and fit: "fits es cap value"
    and unreadable: "\<not> readable (length value div es)"
  shows "fst (take_string \<lparr>rd_data = string_bytes es cap value, rd_pos = 0\<rparr>) =
    Inl (Err (StringLengthMismatch (cap * es) (decoded_length (length value div es) * es)
      (cap * es - length value)))"
proof -
  define n m pad where "n = length value div es" and "m = decoded_length n"
    and "pad = cap * es - length value"
  have le: "length value \<le> cap * es" and eq: "length value = n * es"
    using fits_le [OF fit] fit
    by (simp_all add: fits_def n_def) (metis add.right_neutral div_mult_mod_eq)
  have n: "128 \<le> n" and ne: "m \<noteq> n"
    using unreadable by (auto simp: readable_def decoded_length_def n_def m_def split: if_splits)
  have "n < 256 ^ 4" using le eq cap es by auto
  then have "length (rev (le_digits n)) \<le> 4" using length_le_digits [of n 4] by simp
  then have "misread n < 256 ^ 4"
    unfolding misread_def
    by (meson le_value_bound less_le_trans one_le_numeral power_increasing)
  then have small: "m < 2 ^ 32" using n by (simp add: m_def decoded_length_def)
  have nat_ne: "cap * es \<noteq> m * es + pad"
    using le eq ne es by (auto simp: pad_def)
  have unat1: "unat (of_nat (cap * es) :: usize) = cap * es"
    using cap by (simp add: unat_of_nat del: of_nat_mult)
  have unat2: "unat (of_nat m * of_nat es :: usize) = m * es"
    using small es by (auto simp: unat_of_nat simp flip: of_nat_mult)
  have "unat (of_nat (m * es + pad) :: usize) = m * es + pad"
    using small cap es by (auto simp: unat_of_nat pad_def simp del: of_nat_mult of_nat_add)
  then have "(of_nat (cap * es) :: usize) \<noteq> of_nat m * of_nat es + of_nat pad"
    using nat_ne unat1 by (metis of_nat_add of_nat_mult)
  moreover have "(of_nat (cap * es) :: usize) \<noteq> 0"
    using unat1 n le eq es by (metis le_zero_eq mult_is_0 not_numeral_le_zero unsigned_0 zero_neq_numeral zero_neq_one)
  ultimately show ?thesis
    using take_string_header [OF es cap fit] by (simp add: Let_def unat2 flip: n_def m_def pad_def)
qed

interpretation string_wire: wire_field take_string "\<lambda>(es, cap, v). string_bytes es cap v"
    "\<lambda>(es, cap, v). v"
    "\<lambda>(es, cap, v). (es = 1 \<or> es = 2 \<or> es = 4) \<and> cap * es < 2 ^ 32 \<and> fits es cap v \<and>
       readable (length v div es)"
  by (intro wire_field.intro decoder_take_string wire_field_axioms.intro)
    (auto simp: take_string_readable)

section \<open>Which counts survive\<close>

lemma le_digits_one: "0 < n \<Longrightarrow> n < 256 \<Longrightarrow> le_digits n = [of_nat n]"
  by (subst le_digits.simps) simp

lemma readable_byte: "n < 256 \<Longrightarrow> readable n"
  by (cases "n = 0")
    (auto simp: readable_def decoded_length_def misread_def le_digits_one unat_of_nat)

lemma misread_two_bytes:
  assumes "256 \<le> n" and "n < 65536"
  shows "misread n = (n mod 256) * 256 + n div 256"
proof -
  have "le_digits n = [of_nat (n mod 256), of_nat (n div 256)]"
    using assms by (subst le_digits.simps) (simp add: le_digits_one)
  then show ?thesis using assms by (simp add: misread_def unat_of_nat)
qed

lemma readable_two_bytes:
  assumes "256 \<le> n" and "n < 65536"
  shows "readable n \<longleftrightarrow> n mod 256 = n div 256"
proof -
  define q r where "q = n div 256" and "r = n mod 256"
  have "n = q * 256 + r" "r < 256" "q < 256"
    using assms by (simp_all add: q_def r_def)
  then show ?thesis
    using assms misread_two_bytes [OF assms]
    by (auto simp: readable_def decoded_length_def simp flip: q_def r_def)
qed

section \<open>Whole payloads\<close>

fun spec_view :: "spec \<Rightarrow> arg \<Rightarrow> codec_value" where
  "spec_view (IntSpec c w) (ArgInt v) = ValInt (take_bit (8 * w) v)"
| "spec_view sp (ArgBytes v) = ValBytes v"
| "spec_view sp (ArgInt v) = ValInt v"

fun arg_readable :: "spec \<Rightarrow> arg \<Rightarrow> bool" where
  "arg_readable (ByteStr cap) (ArgBytes v) \<longleftrightarrow> readable (length v)"
| "arg_readable (ElemStr c es cap) (ArgBytes v) \<longleftrightarrow> readable (length v div es)"
| "arg_readable _ _ \<longleftrightarrow> True"

fun spec_kind :: "spec \<Rightarrow> char" where
  \<comment> \<open>The specifier \<open>unpack\<close> uses for a field.\<close>
  "spec_kind (IntSpec c w) = CHR ''n''"
| "spec_kind _ = CHR ''s''"

definition field_ok :: "spec \<times> arg \<Rightarrow> bool" where
  "field_ok f \<longleftrightarrow>
     spec_ok (fst f) \<and> arg_ok (fst f) (snd f) \<and> arg_readable (fst f) (snd f)"

lemma int_field_at:
  "take_asn_int r = (Inr v, r') \<Longrightarrow> int_field r = (Inr (ValInt v), r')"
  by (simp add: int_field_def seq_Inr)

lemma string_field_at:
  "take_string r = (Inr v, r') \<Longrightarrow> string_field r = (Inr (ValBytes v), r')"
  by (simp add: string_field_def seq_Inr)

lemma any_field_decodes:
  assumes "field_ok f"
  defines "d \<equiv> field_bytes (fst f) (snd f)"
  shows "any_field \<lparr>rd_data = d, rd_pos = 0\<rparr> =
    (Inr (spec_view (fst f) (snd f)), \<lparr>rd_data = d, rd_pos = length d\<rparr>)"
proof (cases "(fst f, snd f)" rule: field_bytes.cases)
  case (1 c w v)
  with assms have "w = 1 \<or> w = 2 \<or> w = 4" by (auto simp: field_ok_def dest: elem_width_cases)
  from int_field_at [OF take_asn_int_int_bytes [OF this, of v]] 1 show ?thesis
    by (simp add: d_def any_field_eq int_bytes_def Let_def)
next
  case (2 cap v)
  with assms have "cap * 1 < 2 ^ 32" "fits 1 cap v" "readable (length v div 1)"
    by (simp_all add: field_ok_def)
  from string_field_at [OF take_string_readable [OF _ this]] 2 show ?thesis
    by (simp add: d_def any_field_eq string_bytes_def string_tag_def tag_defs Let_def)
next
  case (3 c es cap v)
  with assms have es: "es = 1 \<or> es = 2 \<or> es = 4" and "cap * es < 2 ^ 32" "fits es cap v"
    "readable (length v div es)"
    by (auto simp: field_ok_def dest: elem_width_cases)
  from string_field_at [OF take_string_readable [OF this]] 3 es show ?thesis
    by (auto simp: d_def any_field_eq string_bytes_def string_tag_def tag_defs Let_def)
qed (use assms in \<open>auto simp: field_ok_def\<close>)

interpretation any_wire: wire_field any_field "\<lambda>f. field_bytes (fst f) (snd f)"
    "\<lambda>f. spec_view (fst f) (snd f)" field_ok
  by (intro wire_field.intro field_decoder.axioms(1) field_decoder_any_field
      wire_field_axioms.intro any_field_decodes)

lemma spec_kind_field:
  assumes "field_ok f" and "any_field r = (Inr (spec_view (fst f) (snd f)), r')"
  shows "(if spec_kind (fst f) = CHR ''n'' then int_field r else string_field r) =
    (Inr (spec_view (fst f) (snd f)), r')"
  using assms
  by (cases "(fst f, snd f)" rule: field_bytes.cases)
    (auto simp: field_ok_def any_field_eq Let_def int_field_def string_field_def seq_eq_Inr
      split: if_splits)

definition fields_bytes :: "(spec \<times> arg) list \<Rightarrow> byte list" where
  "fields_bytes fs = concat (map (\<lambda>f. field_bytes (fst f) (snd f)) fs)"

definition fields_view :: "(spec \<times> arg) list \<Rightarrow> codec_value list" where
  "fields_view fs = map (\<lambda>f. spec_view (fst f) (snd f)) fs"

lemma fields_simps [simp]:
  "fields_bytes [] = []" "fields_view [] = []"
  "fields_bytes (f # fs) = field_bytes (fst f) (snd f) @ fields_bytes fs"
  "fields_view (f # fs) = spec_view (fst f) (snd f) # fields_view fs"
  by (simp_all add: fields_bytes_def fields_view_def)

lemma layout_fields: "layout sps args = fields_bytes (zip sps args)"
  by (simp add: layout_def fields_bytes_def case_prod_unfold)

lemma field_nonempty: "field_ok f \<Longrightarrow> field_bytes (fst f) (snd f) \<noteq> []"
  using any.progress [OF any_wire.decodes] by fastforce

lemma decode_loop_fields:
  assumes "\<forall>f \<in> set fs. field_ok f" and "length (pre @ fields_bytes fs) \<le> isize_max"
  shows "decode_loop out \<lparr>rd_data = pre @ fields_bytes fs, rd_pos = length pre\<rparr> =
    (Inr (out @ fields_view fs),
     \<lparr>rd_data = pre @ fields_bytes fs, rd_pos = length pre + length (fields_bytes fs)\<rparr>)"
  using assms
proof (induction fs arbitrary: pre out)
  case Nil
  then show ?case by (simp add: decode_loop.simps is_empty_def)
next
  case (Cons f fs)
  let ?fb = "field_bytes (fst f) (snd f)"
  have ok: "field_ok f" and room: "length (pre @ ?fb @ fields_bytes fs) \<le> isize_max"
    using Cons.prems by simp_all
  show ?case
    using any_wire.anywhere [OF ok room] field_nonempty [OF ok]
      Cons.IH [of "pre @ ?fb" "out @ [spec_view (fst f) (snd f)]"] Cons.prems
    by (subst decode_loop.simps) (simp add: is_empty_def seq_Inr)
qed

lemma unpack_loop_fields:
  assumes "\<forall>f \<in> set fs. field_ok f" and "length (pre @ fields_bytes fs @ post) \<le> isize_max"
  shows "unpack_loop (map (spec_kind \<circ> fst) fs) out
      \<lparr>rd_data = pre @ fields_bytes fs @ post, rd_pos = length pre\<rparr> =
    (Inr (out @ fields_view fs),
     \<lparr>rd_data = pre @ fields_bytes fs @ post, rd_pos = length pre + length (fields_bytes fs)\<rparr>)"
  using assms
proof (induction fs arbitrary: pre out)
  case Nil
  then show ?case by simp
next
  case (Cons f fs)
  let ?fb = "field_bytes (fst f) (snd f)"
  have ok: "field_ok f" and room: "length (pre @ ?fb @ fields_bytes fs @ post) \<le> isize_max"
    using Cons.prems by simp_all
  have kind: "spec_kind (fst f) = CHR ''n'' \<or> spec_kind (fst f) = CHR ''s''"
    by (cases "fst f") simp_all
  show ?case
    using spec_kind_field [OF ok any_wire.anywhere [OF ok room]] kind
      Cons.IH [of "pre @ ?fb" "out @ [spec_view (fst f) (snd f)]"] Cons.prems
    by (auto simp: seq_Inr)
qed

definition sendable :: "spec list \<Rightarrow> arg list \<Rightarrow> bool" where
  \<comment> \<open>What the encoder accepts, in a buffer Rust can allocate.\<close>
  "sendable sps args \<longleftrightarrow>
     list_all2 arg_ok sps args \<and> (\<forall>sp \<in> set sps. spec_ok sp) \<and>
     length (layout sps args) \<le> isize_max"

definition all_readable :: "spec list \<Rightarrow> arg list \<Rightarrow> bool" where
  "all_readable sps args \<longleftrightarrow> list_all2 arg_readable sps args"

lemma sendable_fields_ok:
  assumes "sendable sps args" and "all_readable sps args"
  shows "\<forall>f \<in> set (zip sps args). field_ok f"
  using assms
  by (auto simp: sendable_def all_readable_def field_ok_def list_all2_iff dest: set_zip_leftD)

lemma sendable_kinds:
  "sendable sps args \<Longrightarrow> map (spec_kind \<circ> fst) (zip sps args) = map spec_kind sps"
  by (metis list.map_comp list_all2_lengthD map_fst_zip sendable_def)

lemma decode_values_layout:
  assumes "sendable sps args" and "all_readable sps args"
  shows "decode_values (layout sps args) = Inr (map2 spec_view sps args)"
  using decode_loop_fields [OF sendable_fields_ok [OF assms], of "[]" "[]"] assms(1)
  by (simp add: decode_values_def reader_new_def layout_fields sendable_def fields_view_def
      case_prod_unfold)

lemma unpack_layout:
  assumes "sendable sps args" and "all_readable sps args"
    and "length (layout sps args @ post) \<le> isize_max"
  shows "unpack (map spec_kind sps) (layout sps args @ post) = Inr (map2 spec_view sps args)"
  using unpack_loop_fields [OF sendable_fields_ok [OF assms(1,2)], of "[]" post "[]"] assms(3)
    sendable_kinds [OF assms(1)]
  by (simp add: unpack_def reader_new_def layout_fields fields_view_def case_prod_unfold)

lemma decode_values_asn_int:
  assumes "decode_values body = Inr content" and "length body + 6 \<le> isize_max"
  shows "decode_values (asn_int v @ body) = Inr (ValInt v # content)"
proof -
  let ?d = "asn_int v @ body"
  have "take_asn_int (reader_new ?d) = (Inr v, \<lparr>rd_data = ?d, rd_pos = 6\<rparr>)"
    using asn_wire.anywhere [where a = v and pre = "[]" and post = body] assms(2)
    by (simp add: reader_new_def)
  then have "any_field (reader_new ?d) = (Inr (ValInt v), \<lparr>rd_data = ?d, rd_pos = 6\<rparr>)"
    by (simp add: any_field_eq int_field_at reader_new_def asn_int_def)
  from decode_values_step [OF this] assms show ?thesis by simp
qed

lemma decode_values_Nil [simp]: "decode_values [] = Inr []"
  by (simp add: decode_values_def decode_loop.simps reader_new_def is_empty_def)

section \<open>The debug profile\<close>

text \<open>
  With overflow checks (the \<open>dev\<close> and \<open>test\<close> profiles of Cargo) the three arithmetic operations of
  \<open>take_string\<close> panic where the release build wraps: the shift by 64 bits or more, the product and
  the sum.
\<close>

definition abort :: "(reader, codec_error, 'a) prog" where
  "abort = lift_res (Inl Panic)"

fun take_le_debug :: "nat \<Rightarrow> nat \<Rightarrow> usize \<Rightarrow> (reader, codec_error, usize) prog" where
  "take_le_debug 0 i value = ret value"
| "take_le_debug (Suc n) i value =
     seq take_u8 (\<lambda>b.
       if 64 \<le> i * 8 then abort
       else take_le_debug n (Suc i) (value OR push_bit (i * 8) (ucast b)))"

definition take_length_debug :: "(reader, codec_error, usize) prog" where
  "take_length_debug =
     seq take_u8 (\<lambda>b.
     let valid = ucast b :: usize in
     if valid AND 0x80 \<noteq> 0 then take_le_debug (unat (valid AND 0x0f)) 0 0 else ret valid)"

definition take_string_debug :: "(reader, codec_error, byte list) prog" where
  "take_string_debug =
     seq take_u8 (\<lambda>tag.
     case elem_size_of tag of
       None \<Rightarrow> raise (BadStringTag tag)
     | Some elem_size \<Rightarrow>
         seq take_length_debug (\<lambda>elements.
         if usize_limit \<le> unat elements * unat elem_size then abort else
         let valid = elements * elem_size in
         seq take_asn_int (\<lambda>count32.
         seq take_asn_int (\<lambda>padding32.
         let count = ucast count32 :: usize; padding = ucast padding32 :: usize in
         if count \<noteq> 0 \<and> usize_limit \<le> unat valid + unat padding then abort else
         if count \<noteq> 0 \<and> count \<noteq> valid + padding
         then raise (StringLengthMismatch (unat count) (unat valid) (unat padding)) else
         seq (take_bytes (unat valid)) (\<lambda>payload.
         seq (take_bytes (unat padding)) (\<lambda>_.
         ret payload))))))"

definition aborts_or :: "(reader, codec_error, 'a) prog \<Rightarrow> (reader, codec_error, 'a) prog \<Rightarrow> bool" where
  \<comment> \<open>The first computation panics or does what the second does.\<close>
  "aborts_or m n \<longleftrightarrow> (\<forall>r. fst (m r) = Inl Panic \<or> m r = n r)"

lemma aborts_or_refl: "aborts_or m m"
  by (simp add: aborts_or_def)

lemma aborts_or_abort: "aborts_or abort m"
  by (simp add: aborts_or_def abort_def)

lemma aborts_or_seq:
  assumes "aborts_or m n" and "\<And>a. aborts_or (f a) (g a)"
  shows "aborts_or (seq m f) (seq n g)"
  unfolding aborts_or_def
proof
  fix r
  show "fst (seq m f r) = Inl Panic \<or> seq m f r = seq n g r"
  proof (cases "m r")
    case (Pair x t)
    then show ?thesis
      using assms unfolding aborts_or_def
      by (cases x) (metis fst_conv seq_Inl, metis fst_conv seq_Inr sum.distinct(1))
  qed
qed

lemma aborts_or_if: "aborts_or m m' \<Longrightarrow> aborts_or n n' \<Longrightarrow> aborts_or (if b then m else n) (if b then m' else n')"
  by simp

lemma aborts_or_guard: "aborts_or m n \<Longrightarrow> aborts_or (if b then abort else m) n"
  by (simp add: aborts_or_abort)

lemma aborts_or_case:
  "aborts_or m m' \<Longrightarrow> (\<And>a. aborts_or (f a) (g a)) \<Longrightarrow>
   aborts_or (case x of None \<Rightarrow> m | Some a \<Rightarrow> f a) (case x of None \<Rightarrow> m' | Some a \<Rightarrow> g a)"
  by (simp split: option.split)

lemma take_le_debug_aborts_or: "aborts_or (take_le_debug n i value) (take_le n i value)"
proof (induction n arbitrary: i "value")
  case 0
  show ?case by (simp only: take_le_debug.simps take_le.simps aborts_or_refl)
next
  case (Suc n)
  have "aborts_or (if 64 \<le> i * 8 then abort
      else take_le_debug n (Suc i) (value OR push_bit (i * 8) (ucast b)))
      (take_le n (Suc i) (value OR push_bit (i * 8 mod 64) (ucast b)))" for b :: byte
    using Suc.IH by (simp add: aborts_or_abort)
  then show ?case by (simp only: take_le_debug.simps take_le.simps aborts_or_refl aborts_or_seq)
qed

lemma take_string_debug_aborts_or: "aborts_or take_string_debug take_string"
proof -
  have len: "aborts_or take_length_debug take_length"
    unfolding take_length_debug_def take_length_def Let_def
    by (intro aborts_or_seq aborts_or_if aborts_or_refl take_le_debug_aborts_or)
  show ?thesis
    unfolding take_string_debug_def take_string_def Let_def
    by (intro aborts_or_seq aborts_or_case aborts_or_guard aborts_or_if aborts_or_refl len)
qed

text \<open>A string field with nine length bytes.\<close>

abbreviation nine_bytes :: "byte list" where
  "nine_bytes \<equiv> [0x55, 0x89, 0, 0, 0, 0, 0, 0, 0, 0, 0]"

lemma take_u8_at:
  "take_u8 \<lparr>rd_data = d, rd_pos = p\<rparr> =
     (if p < length d then (Inr (d ! p), \<lparr>rd_data = d, rd_pos = Suc p\<rparr>)
      else (Inl (Err UnexpectedEof), \<lparr>rd_data = d, rd_pos = p\<rparr>))"
  by (simp add: take_u8_def peek_u8_def seq_def)

lemma take_le_zeros:
  "p + n \<le> length d \<Longrightarrow> \<forall>k \<ge> p. k < length d \<longrightarrow> d ! k = 0 \<Longrightarrow>
   take_le n i value \<lparr>rd_data = d, rd_pos = p\<rparr> = (Inr value, \<lparr>rd_data = d, rd_pos = p + n\<rparr>)"
proof (induction n arbitrary: i p)
  case (Suc n)
  from Suc.prems have u: "take_u8 \<lparr>rd_data = d, rd_pos = p\<rparr> = (Inr 0, \<lparr>rd_data = d, rd_pos = Suc p\<rparr>)"
    by (simp add: take_u8_at)
  with Suc.IH [of "Suc p" "Suc i"] Suc.prems show ?case
    by (simp add: seq_Inr [where m = take_u8, OF u])
qed simp

lemma take_le_debug_ninth:
  "p + n \<le> length d \<Longrightarrow> 9 \<le> i + n \<Longrightarrow> 0 < n \<Longrightarrow>
   fst (take_le_debug n i value \<lparr>rd_data = d, rd_pos = p\<rparr>) = Inl Panic"
proof (induction n arbitrary: i p "value")
  case (Suc n)
  then have u: "take_u8 \<lparr>rd_data = d, rd_pos = p\<rparr> = (Inr (d ! p), \<lparr>rd_data = d, rd_pos = Suc p\<rparr>)"
    by (simp add: take_u8_at)
  show ?case
  proof (cases "8 \<le> i")
    case True
    then show ?thesis by (simp add: seq_Inr [where m = take_u8, OF u] abort_def)
  next
    case False
    with Suc.prems have "0 < n" by simp
    with Suc.IH [of "Suc p" "Suc i"] Suc.prems False show ?thesis by (simp add: seq_Inr [where m = take_u8, OF u])
  qed
qed simp

lemma nine_bytes_length:
  "fst (take_length_debug \<lparr>rd_data = nine_bytes, rd_pos = 1\<rparr>) = Inl Panic"
  "take_length \<lparr>rd_data = nine_bytes, rd_pos = 1\<rparr> =
     (Inr 0, \<lparr>rd_data = nine_bytes, rd_pos = 11\<rparr>)"
proof -
  have u: "take_u8 \<lparr>rd_data = nine_bytes, rd_pos = 1\<rparr> = (Inr 0x89, \<lparr>rd_data = nine_bytes, rd_pos = 2\<rparr>)"
    by (simp add: take_u8_at)
  have zeros: "\<forall>k \<ge> 2. k < length nine_bytes \<longrightarrow> nine_bytes ! k = 0"
    by (auto simp: nth_Cons split: nat.split)
  show "fst (take_length_debug \<lparr>rd_data = nine_bytes, rd_pos = 1\<rparr>) = Inl Panic"
    unfolding take_length_debug_def seq_Inr [where m = take_u8, OF u]
    using take_le_debug_ninth [of 2 9 nine_bytes 0 0] by (simp add: Let_def)
  show "take_length \<lparr>rd_data = nine_bytes, rd_pos = 1\<rparr> =
     (Inr 0, \<lparr>rd_data = nine_bytes, rd_pos = 11\<rparr>)"
    unfolding take_length_def seq_Inr [where m = take_u8, OF u]
    using take_le_zeros [of 2 9 nine_bytes, OF _ zeros, of 0 0] by (simp add: Let_def)
qed

section \<open>Properties\<close>

text \<open>C14: Decoding against a format is well typed: \<open>unpack\<close> returns one value per letter of the
  format, an integer where the letter is \<open>n\<close> and a byte string where it is \<open>s\<close>, and it returns
  values only for formats of these two letters.\<close>

theorem unpack_types:
  assumes "unpack fmt data = Inr vs"
  shows "length vs = length fmt \<and> set fmt \<subseteq> {CHR ''n'', CHR ''s''} \<and>
    (\<forall>i < length fmt.
       as_int (vs ! i) \<noteq> None \<longleftrightarrow> fmt ! i = CHR ''n'') \<and>
    (\<forall>i < length fmt.
       as_bytes (vs ! i) \<noteq> None \<longleftrightarrow> fmt ! i = CHR ''s'')"
proof -
  have typed: "list_all2 of_kind fmt vs" using assms by (rule unpack_shape)
  then have "set fmt \<subseteq> {CHR ''n'', CHR ''s''}"
    by (auto simp: in_set_conv_nth list_all2_conv_all_nth of_kind_def)
  moreover have "as_int (vs ! i) \<noteq> None \<longleftrightarrow> fmt ! i = CHR ''n''"
      "as_bytes (vs ! i) \<noteq> None \<longleftrightarrow> fmt ! i = CHR ''s''" if "i < length fmt" for i
    using typed that by (auto simp: list_all2_conv_all_nth of_kind_def)
  ultimately show ?thesis using typed by (auto simp: list_all2_lengthD)
qed

theorem unpack_types_witness:
  "unpack ''ns'' (asn_int 7 @ string_bytes 1 4 [9]) = Inr [ValInt 7, ValBytes [9]] \<and>
   as_int ([ValInt 7, ValBytes [9]] ! 0) \<noteq> None \<and> as_bytes ([ValInt 7, ValBytes [9]] ! 1) \<noteq> None"
proof -
  let ?sps = "[IntSpec (CHR ''L'') 4, ByteStr 4]" and ?args = "[ArgInt 7, ArgBytes [9]]"
  have "unpack (map spec_kind ?sps) (layout ?sps ?args @ []) = Inr (map2 spec_view ?sps ?args)"
    by (rule unpack_layout) (simp_all add: sendable_def all_readable_def fits_def readable_byte
        length_string_bytes length_field_def int_bytes_def elem_width_def)
  then have run: "unpack ''ns'' (asn_int 7 @ string_bytes 1 4 [9]) = Inr [ValInt 7, ValBytes [9]]"
    by (simp add: asn_int_int_bytes take_bit_word_eq_self)
  from unpack_types [OF run] run show ?thesis by simp
qed

text \<open>C12: Decoding is total: whatever bytes the firmware sends, \<open>decode_values\<close> and \<open>unpack\<close>
  return values or a codec error, never a panic (no slice or index out of range); this is the release
  build, in which the arithmetic of \<open>take_string\<close> wraps.\<close>

theorem decoding_never_panics:
  "((\<exists>vs. decode_values data = Inr vs) \<or> (\<exists>e. decode_values data = Inl (Err e))) \<and>
   ((\<exists>vs. unpack fmt data = Inr vs) \<or> (\<exists>e. unpack fmt data = Inl (Err e)))"
proof -
  have total: "(\<exists>a. r = Inr a) \<or> (\<exists>e. r = Inl (Err e))"
    if "r \<noteq> Inl Panic" "r \<noteq> Inl Blocked" for r :: "(codec_error, codec_value list) res"
  proof (cases r)
    case (Inl e)
    with that show ?thesis by (cases e) simp_all
  qed simp
  show ?thesis
    by (intro conjI total decode_values_clean unpack_clean)
qed

text \<open>C13: What \<open>decode_values\<close> returns is bounded by its input: every integer accounts for at least
  three bytes and every string for its own bytes and at least eight more, so a malicious length
  field cannot make the decoder produce more data than it was given.\<close>

theorem decoded_size_bound:
  assumes "decode_values data = Inr vs"
  shows "sum_list (map value_weight vs) \<le> length data \<and> 3 * length vs \<le> length data"
proof -
  obtain r where "decode_loop [] (reader_new data) = (Inr vs, r)"
    using assms by (metis decode_values_def prod.collapse)
  from decode_loop_width [OF this] have "sum_list (map value_weight vs) \<le> length data"
    by (simp add: reader_new_def)
  moreover have "3 * length vs \<le> sum_list (map value_weight vs)"
  proof (induction vs)
    case (Cons v vs)
    then show ?case by (cases v) simp_all
  qed simp
  ultimately show ?thesis by simp
qed

theorem decoded_size_bound_witness:
  "decode_values (asn_int 7 @ []) = Inr [ValInt 7] \<and>
   sum_list (map value_weight [ValInt 7]) \<le> length (asn_int 7)"
proof -
  have run: "decode_values (asn_int 7 @ []) = Inr [ValInt 7]"
    by (rule decode_values_asn_int) simp_all
  with decoded_size_bound [OF run] show ?thesis by simp
qed

text \<open>C10: The encoder meets its reference layout: on the rendering of well-formed field descriptions
  and matching arguments \<open>pack\<close> returns the fields' bytes one after the other; with arguments missing
  it fails with \<open>MissingArgument\<close>, with arguments left over with \<open>TooManyArguments\<close>.\<close>

theorem pack_meets_layout:
  assumes "list_all2 arg_ok sps args" and "\<forall>sp \<in> set (sps @ sps'). spec_ok sp"
    and "length (layout sps args) \<le> isize_max" and "sps' = [] \<or> extra = []"
  shows "pack (render (sps @ sps')) (args @ extra) =
    (if sps' \<noteq> [] then Inl (Err MissingArgument)
     else if extra \<noteq> [] then Inl (Err TooManyArguments)
     else Inr (layout sps args))"
  using assms pack_render [of sps args] pack_render_short [of sps args sps']
    pack_render_long [of sps args extra]
  by auto

theorem pack_meets_layout_witness:
  "pack ''Bs3'' [ArgInt 5] = Inl (Err MissingArgument) \<and>
   pack ''B'' [ArgInt 5] = Inr [2, 1, 5] \<and>
   pack ''B'' [ArgInt 5, ArgInt 6] = Inl (Err TooManyArguments)"
  using pack_meets_layout [of "[IntSpec (CHR ''B'') 1]" "[ArgInt 5]" "[ByteStr 3]" "[]"]
    pack_meets_layout [of "[IntSpec (CHR ''B'') 1]" "[ArgInt 5]" "[]" "[]"]
    pack_meets_layout [of "[IntSpec (CHR ''B'') 1]" "[ArgInt 5]" "[]" "[ArgInt 6]"]
  by (simp add: elem_width_def int_bytes_def dec_string_eval render_def to_be32_def TAG_INT_def)

text \<open>C9: The codec round trip: a payload packed from well-formed fields whose string lengths survive
  the two byte orders decodes, by tag with \<open>decode_values\<close> and by format with \<open>unpack\<close> (also in
  front of other bytes), to the arguments it was packed from, integers truncated to their field's
  width.\<close>

theorem codec_round_trip:
  assumes "sendable sps args" and "all_readable sps args"
    and "length (layout sps args @ post) \<le> isize_max"
  shows "\<exists>bs. pack (render sps) args = Inr bs \<and>
    decode_values bs = Inr (map2 spec_view sps args) \<and>
    unpack (map spec_kind sps) (bs @ post) = Inr (map2 spec_view sps args)"
  using pack_render [of sps args] assms decode_values_layout [OF assms(1,2)]
    unpack_layout [OF assms]
  by (simp add: sendable_def)

theorem codec_round_trip_witness:
  "\<exists>bs. pack ''Bs5SH3'' [ArgInt 0x1ff, ArgBytes [1, 2, 3], ArgBytes [1, 0, 2, 0]] = Inr bs \<and>
    decode_values bs = Inr [ValInt 0xff, ValBytes [1, 2, 3], ValBytes [1, 0, 2, 0]] \<and>
    unpack ''nss'' (bs @ [9]) = Inr [ValInt 0xff, ValBytes [1, 2, 3], ValBytes [1, 0, 2, 0]]"
  using codec_round_trip [of "[IntSpec (CHR ''B'') 1, ByteStr 5, ElemStr (CHR ''H'') 2 3]"
      "[ArgInt 0x1ff, ArgBytes [1, 2, 3], ArgBytes [1, 0, 2, 0]]" "[9]"]
  by (simp add: sendable_def all_readable_def elem_width_def fits_def readable_byte dec_string_eval
      length_string_bytes length_field_def int_bytes_def render_def take_bit_eq_mask mask_eq_exp_minus_1)

text \<open>C11: Which string lengths survive: \<open>pack_string\<close> writes an element count of 128 or more with its
  bytes big-endian, \<open>take_string\<close> reads them little-endian.  A byte string of fewer than 65536 bytes
  reads back exactly when its length is below 256 or its two length bytes are equal; otherwise
  decoding reports \<open>StringLengthMismatch\<close> with the misread count.\<close>

theorem long_string_verdict:
  assumes "length v \<le> cap" and "cap < 2 ^ 32" and "length v < 65536"
  shows "\<exists>bs. pack (''s'' @ dec_string cap) [ArgBytes v] = Inr bs \<and>
    unpack ''s'' bs =
      (if length v < 256 \<or> length v mod 256 = length v div 256 then Inr [ValBytes v]
       else Inl (Err (StringLengthMismatch cap
         (length v mod 256 * 256 + length v div 256) (cap - length v))))"
proof -
  have fit: "fits 1 cap v" and cap: "cap * 1 < 2 ^ 32" and one: "(1 :: nat) = 1 \<or> 1 = (2 :: nat) \<or> 1 = (4 :: nat)"
    using assms by (simp_all add: fits_def)
  let ?bs = "string_bytes 1 cap v" and ?r = "reader_new (string_bytes 1 cap v)"
  have "length ?bs \<le> isize_max"
    using length_string_bytes_le(1) [OF cap fit] assms(2) by simp
  then have "pack (''s'' @ dec_string cap) [ArgBytes v] = Inr ?bs"
    using pack_render [of "[ByteStr cap]" "[ArgBytes v]"] assms fit by simp
  moreover have "readable (length v) \<longleftrightarrow> length v < 256 \<or> length v mod 256 = length v div 256"
    using readable_byte [of "length v"] readable_two_bytes [of "length v"] assms(3) by linarith
  moreover have "unpack ''s'' ?bs = Inr [ValBytes v]" if "readable (length v)"
    using take_string_readable [OF one cap fit] that
    by (simp add: unpack_def reader_new_def string_field_def seq_Inr)
  moreover have "unpack ''s'' ?bs = Inl (Err (StringLengthMismatch cap
         (length v mod 256 * 256 + length v div 256) (cap - length v)))" if "\<not> readable (length v)"
  proof -
    have ge: "256 \<le> length v" using that readable_byte [of "length v"] by linarith
    have "fst (take_string ?r) =
        Inl (Err (StringLengthMismatch cap (decoded_length (length v)) (cap - length v)))"
      using take_string_unreadable [OF one cap fit] that by (simp add: reader_new_def)
    then obtain t where "take_string ?r =
        (Inl (Err (StringLengthMismatch cap (decoded_length (length v)) (cap - length v))), t)"
      by (cases "take_string ?r") simp
    then show ?thesis
      using misread_two_bytes [OF ge assms(3)] ge
      by (simp add: unpack_def string_field_def seq_Inl decoded_length_def)
  qed
  ultimately show ?thesis by auto
qed

theorem long_string_verdict_witness:
  "(\<exists>bs. pack (''s'' @ dec_string 300) [ArgBytes (replicate 257 7)] = Inr bs \<and>
      unpack ''s'' bs = Inr [ValBytes (replicate 257 7)]) \<and>
   (\<exists>bs. pack (''s'' @ dec_string 300) [ArgBytes (replicate 256 7)] = Inr bs \<and>
      unpack ''s'' bs = Inl (Err (StringLengthMismatch 300 1 44)))"
proof -
  define a b :: "byte list" where "a = replicate 257 7" and "b = replicate 256 7"
  have len: "length a = 257" "length b = 256"
    unfolding a_def b_def by (rule length_replicate)+
  have "\<exists>bs. pack (''s'' @ dec_string 300) [ArgBytes a] = Inr bs \<and> unpack ''s'' bs = Inr [ValBytes a]"
    using long_string_verdict [of a 300] unfolding len by simp
  moreover have "\<exists>bs. pack (''s'' @ dec_string 300) [ArgBytes b] = Inr bs \<and>
      unpack ''s'' bs = Inl (Err (StringLengthMismatch 300 1 44))"
    using long_string_verdict [of b 300] unfolding len by simp
  ultimately show ?thesis
    unfolding a_def b_def by (rule conjI)
qed

text \<open>C35: The two build profiles agree except for panics: on every cursor the debug build either panics
  or does exactly what the release build does, and it does panic on an eleven-byte string field of a
  firmware message (nine length bytes), which the release build refuses with a codec error.\<close>

theorem profiles_agree:
  "(fst (take_string_debug r) = Inl Panic \<or> take_string_debug r = take_string r) \<and>
   fst (take_string_debug (reader_new nine_bytes)) = Inl Panic \<and>
   fst (take_string (reader_new nine_bytes)) = Inl (Err UnexpectedEof)"
proof (intro conjI)
  show "fst (take_string_debug r) = Inl Panic \<or> take_string_debug r = take_string r"
    using take_string_debug_aborts_or by (simp add: aborts_or_def)
  have u: "take_u8 (reader_new nine_bytes) = (Inr 0x55, \<lparr>rd_data = nine_bytes, rd_pos = 1\<rparr>)"
    by (simp add: reader_new_def take_u8_at)
  have e: "elem_size_of 0x55 = Some 1" by (simp add: elem_size_of_def tag_defs)
  obtain t where len: "take_length_debug \<lparr>rd_data = nine_bytes, rd_pos = 1\<rparr> = (Inl Panic, t)"
    using nine_bytes_length(1) by (metis prod.collapse)
  show "fst (take_string_debug (reader_new nine_bytes)) = Inl Panic"
    by (simp only: take_string_debug_def seq_Inl [where m = take_length_debug, OF len] seq_Inr [where m = take_u8, OF u] e option.case fst_conv)
  have "take_u8 \<lparr>rd_data = nine_bytes, rd_pos = 11\<rparr> =
       (Inl (Err UnexpectedEof), \<lparr>rd_data = nine_bytes, rd_pos = 11\<rparr>)"
    by (simp add: take_u8_at)
  then have int: "take_asn_int \<lparr>rd_data = nine_bytes, rd_pos = 11\<rparr> =
       (Inl (Err UnexpectedEof), \<lparr>rd_data = nine_bytes, rd_pos = 11\<rparr>)"
    unfolding take_asn_int_def by (rule seq_Inl [where m = take_u8])
  show "fst (take_string (reader_new nine_bytes)) = Inl (Err UnexpectedEof)"
    by (simp only: take_string_def seq_Inr [where m = take_u8, OF u] e option.case seq_Inr [where m = take_length, OF nine_bytes_length(2)]
        Let_def fst_conv seq_Inl [where m = take_asn_int, OF int])
qed

end
