(* ===== verification/Exchange.thy ===== *)
theory Exchange
  imports Framing Codec
begin

text \<open>
  What the message and request layers of \<open>src/src/transport.rs\<close> promise: parsing never panics and
  strips exactly the echoed id, a packet written by \<open>execute\<close> is a frame the parser accepts, and
  \<open>execute\<close> returns the first response in the stream after skipping acknowledgements and
  indications, whatever the cutting into reads.
\<close>


section \<open>Parsing a frame\<close>

lemma masked_id_large:
  assumes "t AND 0xffffff00 = TXID_SYNC"
  shows "2 ^ 24 \<le> unat t"
proof -
  have "TXID_SYNC \<le> t" using word_and_le2 [of t "0xffffff00"] assms by simp
  then have "unat TXID_SYNC \<le> unat t" by (simp add: word_le_nat_alt)
  then show ?thesis by (simp add: TXID_SYNC_def)
qed

definition frame_code :: "byte list \<Rightarrow> (codec_error, u32) res" where
  \<comment> \<open>The command or indication code of the header.\<close>
  "frame_code raw = fst (seq take_asn_int (\<lambda>len_asn. take_asn_int) (reader_new (drop 4 raw)))"

definition frame_tid :: "byte list \<Rightarrow> u32" where
  "frame_tid raw = from_be32 (take 4 (drop 16 raw))"

lemma parse_eq_Inr:
  "parse raw = Inr m \<longleftrightarrow>
     20 \<le> length raw \<and>
     (\<exists>c content. frame_code raw = Inr c \<and> decode_values (drop 20 raw) = Inr content \<and>
        classify (frame_tid raw) c (drop 20 raw) content = Inr m)"
  by (auto simp: parse_def frame_code_def frame_tid_def Let_def rbind_eq_Inr)

lemma classify_cases:
  assumes "classify t c body content = Inr m"
  obtains (sync) "t = TXID_SYNC" "msg_kind m = Response" "msg_body m = body" "msg_content m = content"
  | (ack) "t \<noteq> TXID_SYNC" "t AND 0xffffff00 = TXID_SYNC" "2000 \<le> c" "msg_kind m = AsyncAck"
      "msg_body m = body" "msg_content m = content"
  | (async) "t \<noteq> TXID_SYNC" "t AND 0xffffff00 = TXID_SYNC" "c < 2000" "msg_kind m = Response"
      "content = ValInt t # msg_content m" "msg_body m = drop 6 body"
  | (unsolicited) "t AND 0xffffff00 \<noteq> TXID_SYNC" "msg_kind m = UnsolicitedInd" "msg_body m = body"
      "msg_content m = content"
proof -
  have self: "TXID_SYNC AND 0xffffff00 = TXID_SYNC" by (simp add: TXID_SYNC_def)
  consider (1) "t = TXID_SYNC" | (2) "t \<noteq> TXID_SYNC" "t AND 0xffffff00 = TXID_SYNC" "2000 \<le> c"
    | (3) "t \<noteq> TXID_SYNC" "t AND 0xffffff00 = TXID_SYNC" "c < 2000"
    | (4) "t \<noteq> TXID_SYNC" "t AND 0xffffff00 \<noteq> TXID_SYNC"
    by fastforce
  then show thesis
  proof cases
    case 1
    with assms show thesis by (intro sync) (auto simp: classify_def)
  next
    case 2
    with assms show thesis by (intro ack) (auto simp: classify_def)
  next
    case 3
    with assms have m: "slice_get content 0 = Some (ValInt t)"
      "m = \<lparr>msg_tid = t, msg_kind = Response, msg_code = c, msg_body = drop 6 body,
        msg_content = tl content\<rparr>"
      by (auto simp: classify_def not_le [symmetric] bind_eq_Some_conv split: if_splits)
    then have "content = ValInt t # tl content"
      by (cases content) (auto simp: slice_get_def)
    with 3 m(2) show thesis by (intro async) simp_all
  next
    case 4
    with assms show thesis by (intro unsolicited) (auto simp: classify_def)
  qed
qed

lemma classify_tid_code: "classify t c body content = Inr m \<Longrightarrow> msg_tid m = t \<and> msg_code m = c"
  by (auto simp: classify_def split: if_splits)

lemma classify_clean:
  assumes "decode_values body = Inr content" and "length body \<le> isize_max"
  shows "classify t c body content \<noteq> Inl Panic" "classify t c body content \<noteq> Inl Blocked"
proof -
  have "6 \<le> length body"
    if "t AND 0xffffff00 = TXID_SYNC" "Option.bind (slice_get content 0) as_int = Some t"
  proof -
    from that(2) have "content = ValInt t # tl content"
      by (cases content) (auto simp: slice_get_def bind_eq_Some_conv)
    then show ?thesis
      using assms decode_values_drop_int(1) masked_id_large [OF that(1)] by metis
  qed
  then show "classify t c body content \<noteq> Inl Panic" "classify t c body content \<noteq> Inl Blocked"
    by (auto simp: classify_def slice_get_def)
qed

lemma clean_frame_code: "frame_code raw \<noteq> Inl Panic" "frame_code raw \<noteq> Inl Blocked"
  using clean_fst [OF clean_seq [OF clean_take_asn_int clean_take_asn_int]]
  by (simp_all add: frame_code_def)


lemma parse_clean_frame:
  assumes "length raw \<le> isize_max"
  shows "parse raw \<noteq> Inl Panic" "parse raw \<noteq> Inl Blocked"
proof -
  show "parse raw \<noteq> Inl Panic"
    using clean_frame_code [of raw] classify_clean [of "drop 20 raw"] assms
      decode_values_clean [of "drop 20 raw"]
    by (auto simp: parse_def Let_def rbind_def from_codec_def simp flip: frame_code_def
        split: sum.splits)
  show "parse raw \<noteq> Inl Blocked"
    using clean_frame_code [of raw] classify_clean [of "drop 20 raw"] assms
      decode_values_clean [of "drop 20 raw"]
    by (auto simp: parse_def Let_def rbind_def from_codec_def simp flip: frame_code_def
        split: sum.splits)
qed

lemma parse_body:
  assumes "parse raw = Inr m" and "length raw \<le> isize_max"
  shows "decode_values (msg_body m) = Inr (msg_content m)"
proof -
  obtain c content where d: "decode_values (drop 20 raw) = Inr content"
    and "classify (frame_tid raw) c (drop 20 raw) content = Inr m"
    using assms(1) by (auto simp: parse_eq_Inr)
  from this(2) show ?thesis
  proof (cases rule: classify_cases)
    case async
    then have "decode_values (drop 20 raw) = Inr (ValInt (frame_tid raw) # msg_content m)"
      using d by simp
    from decode_values_drop_int(2) [OF this masked_id_large] async assms(2) show ?thesis by simp
  qed (use d in simp_all)
qed


section \<open>Building a request\<close>

definition echo_len :: "mode \<Rightarrow> nat" where
  "echo_len m = (case m of Sync \<Rightarrow> 0 | Async \<Rightarrow> 6)"

definition request_tid :: "mode \<Rightarrow> u32" where
  "request_tid m = (case m of Sync \<Rightarrow> TXID_SYNC | Async \<Rightarrow> TXID_ASYNC)"

definition echo_bytes :: "mode \<Rightarrow> byte list" where
  "echo_bytes m = (case m of Sync \<Rightarrow> [] | Async \<Rightarrow> asn_int TXID_ASYNC)"

lemma length_echo_bytes [simp]: "length (echo_bytes m) = echo_len m"
  by (cases m) (simp_all add: echo_bytes_def echo_len_def)

lemma build_header_bytes:
  "build_header cmd n m =
     to_le32 (of_nat (n + 16 + echo_len m)) @ asn_int (of_nat (n + 16 + echo_len m)) @
     asn_int (raw_id cmd) @ to_be32 (request_tid m) @ echo_bytes m"
proof -
  have "(ucast (of_nat (n + 16 + echo_len m) :: usize) :: u32) = of_nat (n + 16 + echo_len m)"
    by (rule ucast_of_nat_usize)
  then show ?thesis
    by (cases m) (simp_all add: build_header_def echo_len_def request_tid_def echo_bytes_def
        TXID_SYNC_def TXID_ASYNC_def Let_def)
qed

definition frame_for :: "u32 \<Rightarrow> u32 \<Rightarrow> byte list \<Rightarrow> byte list" where
  \<comment> \<open>The frame with a transaction word, a code and a body.\<close>
  "frame_for t c body =
     to_le32 (of_nat (length body + 16)) @ asn_int (of_nat (length body + 16)) @ asn_int c @
     to_be32 t @ body"

lemma length_frame_for [simp]: "length (frame_for t c body) = length body + 20"
  by (simp add: frame_for_def)

lemma frame_for_is_frame:
  assumes "length body + 20 \<le> MAX_MESSAGE_LEN"
  shows "is_frame (frame_for t c body)"
proof -
  have "length body + 16 < 2 ^ 32" using assms by (simp add: MAX_MESSAGE_LEN_def)
  moreover have "take 4 (frame_for t c body) = to_le32 (of_nat (length body + 16))"
    by (simp add: frame_for_def del: of_nat_add)
  ultimately show ?thesis
    using assms by (simp add: is_frame_def unat_of_nat del: of_nat_add)
qed

lemma frame_for_code:
  assumes "length body + 20 \<le> isize_max"
  shows "frame_code (frame_for t c body) = Inr c"
proof -
  define n post where "n = (of_nat (length body + 16) :: u32)" and "post = to_be32 t @ body"
  have d: "drop 4 (frame_for t c body) = asn_int n @ asn_int c @ post"
    by (simp add: frame_for_def n_def post_def del: of_nat_add)
  moreover have "length (asn_int n @ asn_int c @ post) \<le> isize_max"
    using assms by (simp flip: d)
  ultimately show ?thesis
    using asn_wire.anywhere [where a = n and pre = "[]" and post = "asn_int c @ post"]
      asn_wire.anywhere [where a = c and pre = "asn_int n" and post = post]
    by (simp add: frame_code_def reader_new_def seq_Inr)
qed

lemma frame_for_parts: "frame_tid (frame_for t c body) = t" "drop 20 (frame_for t c body) = body"
  by (simp_all add: frame_tid_def frame_for_def del: of_nat_add)

lemma parse_frame_for:
  assumes "decode_values body = Inr content" and "length body + 20 \<le> isize_max"
  shows "parse (frame_for t c body) = classify t c body content"
  using assms frame_for_code [OF assms(2), of t c]
  by (simp add: parse_def frame_for_parts Let_def flip: frame_code_def frame_tid_def)

definition packet :: "call_id_t \<Rightarrow> byte list \<Rightarrow> mode \<Rightarrow> byte list" where
  \<comment> \<open>What \<open>execute_with_timeout\<close> writes.\<close>
  "packet cmd payload m = build_header cmd (length payload) m @ payload"

lemma packet_frame_for:
  "packet cmd payload m = frame_for (request_tid m) (raw_id cmd) (echo_bytes m @ payload)"
  by (simp add: packet_def frame_for_def build_header_bytes add.commute add.left_commute)

lemma echo_len_le: "echo_len m \<le> 6"
  by (cases m) (simp_all add: echo_len_def)

lemma length_packet: "length (packet cmd payload m) = length payload + 20 + echo_len m"
  by (simp add: packet_frame_for)

lemma packet_is_frame:
  assumes "length payload + 26 \<le> MAX_MESSAGE_LEN"
  shows "is_frame (packet cmd payload m)"
  unfolding packet_frame_for
  using assms echo_len_le [of m] by (intro frame_for_is_frame) simp

lemma parse_packet:
  assumes "raw_id cmd < 2000" and "decode_values payload = Inr content"
    and "length payload + 26 \<le> isize_max"
  shows "parse (packet cmd payload m) =
    Inr \<lparr>msg_tid = request_tid m, msg_kind = Response, msg_code = raw_id cmd,
      msg_body = payload, msg_content = content\<rparr>"
proof -
  have "decode_values (echo_bytes m @ payload) =
      Inr ((case m of Sync \<Rightarrow> [] | Async \<Rightarrow> [ValInt TXID_ASYNC]) @ content)"
    using assms decode_values_asn_int [OF assms(2)] by (cases m) (simp_all add: echo_bytes_def)
  then have "parse (packet cmd payload m) = classify (request_tid m) (raw_id cmd)
      (echo_bytes m @ payload) ((case m of Sync \<Rightarrow> [] | Async \<Rightarrow> [ValInt TXID_ASYNC]) @ content)"
    unfolding packet_frame_for
    using assms(3) echo_len_le [of m] by (intro parse_frame_for) simp_all
  then show ?thesis
    using assms(1)
    by (cases m) (simp_all add: request_tid_def echo_bytes_def classify_def slice_get_def
        TXID_SYNC_def TXID_ASYNC_def linorder_not_le)
qed

section \<open>Receiving messages\<close>

definition attach_flag :: "bool \<Rightarrow> message \<Rightarrow> bool" where
  \<comment> \<open>What a received message makes of \<open>attach_allowed\<close>.\<close>
  "attach_flag a m =
     (if msg_kind m = UnsolicitedInd \<and> msg_code m = UTA_MS_NET_IS_ATTACH_ALLOWED_IND_CB
      then (case Option.bind (slice_get (msg_content m) 2) as_int of
              None \<Rightarrow> a | Some allowed \<Rightarrow> allowed \<noteq> 0)
      else a)"

definition messages :: "byte list list \<Rightarrow> message list \<Rightarrow> bool" where
  \<comment> \<open>The frames and what they parse to.\<close>
  "messages raws ms \<longleftrightarrow> list_all2 (\<lambda>raw m. is_frame raw \<and> parse raw = Inr m) raws ms"

lemma messages_simps [simp]:
  "messages [] []" "messages (raw # raws) (m # ms) \<longleftrightarrow>
     is_frame raw \<and> parse raw = Inr m \<and> messages raws ms"
  by (auto simp: messages_def)

lemma messages_snoc:
  assumes "list_all2 (\<lambda>raw m. is_frame raw \<and> parse raw = Inr m) (raws @ [raw]) (ms @ [r])"
  shows "messages raws ms \<and> is_frame raw \<and> parse raw = Inr r"
  using assms
  by (simp add: messages_def list_all2_append1 list_all2_Cons1 append_eq_append_conv2
      Cons_eq_append_conv)
    (auto simp: append_eq_append_conv2 Cons_eq_append_conv append_eq_Cons_conv)

lemma fill_buffer_keeps_attach:
  "fill_buffer deadline s = (x, t) \<Longrightarrow> attach_allowed t = attach_allowed s"
  by (auto simp: fill_buffer_def wait_readable_def instant_now_def poll_port_def read_chunk_def
      Let_def elim!: seq_elim split: option.splits list.splits sum.splits poll_answer.splits
      if_splits)

lemma read_message_loop_keeps_attach:
  "read_message_loop deadline s = (x, t) \<Longrightarrow> attach_allowed t = attach_allowed s"
proof (induction deadline s arbitrary: x t rule: read_message_loop.induct)
  case (1 deadline s)
  from "1.prems" show ?case
    by (subst (asm) read_message_loop.simps)
      (auto split: sum.splits option.splits elim!: seq_elim dest: fill_buffer_keeps_attach
        dest!: "1.IH")
qed

lemma read_message_keeps_attach:
  "read_message timeout s = (x, t) \<Longrightarrow> attach_allowed t = attach_allowed s"
  by (cases timeout)
    (auto simp: read_message_def instant_now_def elim!: seq_elim
      dest!: read_message_loop_keeps_attach)

lemma recv_inner_message:
  assumes "recv_inner timeout s = (Inr m, t)"
  obtains raw where "is_frame raw" "parse raw = Inr m" "stream s = raw @ stream t"
    "attach_allowed t = attach_flag (attach_allowed s) m"
proof -
  from assms obtain raw u where raw: "read_message timeout s = (Inr raw, u)"
    and m: "parse raw = Inr m"
    and t: "t = (if msg_kind m = UnsolicitedInd then handle_unsolicited m u else u)"
    by (auto simp: recv_inner_def seq_eq_Inr)
  have "stream t = stream u"
    by (auto simp: t handle_unsolicited_def split: option.splits)
  moreover have "attach_allowed t = attach_flag (attach_allowed s) m"
    using read_message_keeps_attach [OF raw]
    by (auto simp: t handle_unsolicited_def attach_flag_def split: option.splits)
  ultimately show thesis
    using that m read_message_stream [OF raw] by simp
qed

lemma receives_messages:
  "receives (recv_inner timeout) s ms t \<Longrightarrow>
   \<exists>raws. messages raws ms \<and> stream s = concat raws @ stream t \<and>
     attach_allowed t = foldl attach_flag (attach_allowed s) ms \<and> listens s t"
proof (induction rule: receives.induct)
  case (receives_none s)
  then show ?case by (intro exI [of _ "[]"]) simp
next
  case (receives_more s m u ms t)
  then obtain raws where "messages raws ms" "stream u = concat raws @ stream t"
      "attach_allowed t = foldl attach_flag (attach_allowed u) ms" "listens u t"
    by blast
  moreover obtain raw where "is_frame raw" "parse raw = Inr m" "stream s = raw @ stream u"
      "attach_allowed u = attach_flag (attach_allowed s) m"
    using receives_more.hyps(1) by (rule recv_inner_message)
  moreover have "listens s u" using receives_more.hyps(1) by (rule recv_op.listens)
  ultimately show ?case
    by (intro exI [of _ "raw # raws"]) (auto intro: listens_trans)
qed

section \<open>Requests and their responses\<close>

lemma execute_eq:
  "execute_with_timeout cmd payload m timeout =
     seq (write_all (packet cmd payload m)) (\<lambda>_. execute_loop timeout)"
  by (simp add: execute_with_timeout_def packet_def)

lemma write_all_ok:
  assumes "write_all bs s = (Inr u, t)"
  shows "sent t = sent s @ [bs]" "stream t = stream s" "attach_allowed t = attach_allowed s"
    "os_clock t = os_clock s"
  using assms
  by (auto simp: write_all_def sent_log_call Let_def split: list.splits option.splits)

lemma execute_response:
  assumes "execute_with_timeout cmd payload m timeout s = (Inr r, t)"
  obtains raws ms raw where "messages raws ms" "is_frame raw" "parse raw = Inr r"
    "stream s = concat raws @ raw @ stream t" "\<forall>m \<in> set ms. msg_kind m \<noteq> Response"
    "msg_kind r = Response" "sent t = sent s @ [packet cmd payload m]"
    "attach_allowed t = foldl attach_flag (attach_allowed s) ms"
proof -
  from assms obtain u where w: "write_all (packet cmd payload m) s = (Inr (), u)"
    and loop: "execute_loop timeout u = (Inr r, t)"
    by (auto simp: execute_eq seq_eq_Inr)
  note w' = write_all_ok [OF w]
  obtain ms v where rcv: "receives (recv_inner (Some timeout)) u ms v"
    and skip: "\<forall>m \<in> set ms. msg_kind m \<noteq> Response"
    and last: "recv_inner (Some timeout) v = (Inr r, t)" "msg_kind r = Response"
    using respond.loop_outcome [of timeout u] loop by auto
  obtain raws where raws: "messages raws ms" "stream u = concat raws @ stream v"
      "attach_allowed v = foldl attach_flag (attach_allowed u) ms" "listens u v"
    using receives_messages [OF rcv] by blast
  obtain raw where raw: "is_frame raw" "parse raw = Inr r" "stream v = raw @ stream t"
      "attach_allowed t = attach_flag (attach_allowed v) r"
    using last(1) by (rule recv_inner_message)
  have "sent t = sent u"
    using raws(4) recv_op.listens [OF last(1)] by (simp add: listens_def)
  then show thesis
    using that [of raws ms raw] raws raw w' skip last(2) by (simp add: attach_flag_def)
qed


section \<open>A peer that answers in time is heard\<close>

lemma recv_inner_fed:
  assumes "prompt timeout s" and "fed s" and "stream s = raw @ rest"
    and "is_frame raw" and "parse raw = Inr m"
  obtains t where "recv_inner timeout s = (Inr m, t)" "stream t = rest" "prompt timeout t" "fed t"
proof -
  have next_raw: "next_frame (stream s) = (Inr raw, rest)"
    using assms(3,4) by (simp add: next_frame_append)
  then obtain u where u: "read_message timeout s = (Inr raw, u)" "prompt timeout u" "fed u"
    using read_message_fed [OF assms(1,2)] by (metis fst_conv)
  define t where "t = (if msg_kind m = UnsolicitedInd then handle_unsolicited m u else u)"
  have "recv_inner timeout s = (Inr m, t)"
    using u(1) assms(5) by (simp add: recv_inner_def seq_Inr t_def)
  moreover have "stream t = stream u" "prompt timeout t = prompt timeout u" "fed t = fed u"
    by (simp_all add: t_def handle_unsolicited_def prompt_def fed_def pending_def
        split: option.splits)
  moreover have "stream u = rest"
    using read_message_stream(1) [OF u(1)] assms(3) by simp
  ultimately show thesis using that u(2,3) by simp
qed

lemma receives_fed:
  assumes "messages raws ms" and "prompt timeout s" and "fed s" and "stream s = concat raws @ rest"
  obtains t where "receives (recv_inner timeout) s ms t" "stream t = rest" "prompt timeout t"
    "fed t"
  using assms
proof (induction raws arbitrary: ms s thesis)
  case Nil
  then show ?case by (simp add: messages_def)
next
  case (Cons raw raws)
  from Cons.prems(2) obtain m ms' where ms: "ms = m # ms'" "is_frame raw" "parse raw = Inr m"
      "messages raws ms'"
    by (auto simp: messages_def list_all2_Cons1)
  obtain u where u: "recv_inner timeout s = (Inr m, u)" "stream u = concat raws @ rest"
      "prompt timeout u" "fed u"
    using Cons.prems(3,4) _ ms(2,3) by (rule recv_inner_fed) (simp add: Cons.prems(5))
  from ms(4) u(3,4,2) obtain t where "receives (recv_inner timeout) u ms' t" "stream t = rest"
      "prompt timeout t" "fed t"
    by (rule Cons.IH [rotated])
  with u(1) ms(1) show ?case by (intro Cons.prems(1) [of t]) simp_all
qed

lemma execute_answered:
  assumes "os_writes s = None # ws" and "prompt (Some timeout) s" and "fed s"
    and "stream s = concat raws @ raw @ rest" and "messages raws ms"
    and "\<forall>m \<in> set ms. msg_kind m \<noteq> Response"
    and "is_frame raw" and "parse raw = Inr r" and "msg_kind r = Response"
  obtains t where "execute_with_timeout cmd payload m timeout s = (Inr r, t)" "stream t = rest"
    "prompt (Some timeout) t" "fed t" "os_writes t = ws"
proof -
  define u where "u = (log_call (OsWrite (packet cmd payload m)) s)\<lparr>os_writes := ws\<rparr>"
  have w: "write_all (packet cmd payload m) s = (Inr (), u)"
    using assms(1) by (simp add: write_all_def u_def Let_def)
  have u: "prompt (Some timeout) u" "fed u" "stream u = concat raws @ raw @ rest"
    using assms(2,3,4) by (simp_all add: u_def prompt_def fed_def pending_def)
  obtain v where v: "receives (recv_inner (Some timeout)) u ms v" "stream v = raw @ rest"
      "prompt (Some timeout) v" "fed v"
    using assms(5) u by (rule receives_fed)
  obtain t where t: "recv_inner (Some timeout) v = (Inr r, t)" "stream t = rest"
      "prompt (Some timeout) t" "fed t"
    using v(3,4,2) assms(7,8) by (rule recv_inner_fed)
  have loop: "execute_loop timeout u = (Inr r, t)"
    using respond.loop_stops [OF v(1) assms(6) t(1) assms(9)] by simp
  then have "os_writes t = ws"
    using response.listens [OF loop] by (simp add: listens_def u_def)
  with loop show thesis
    using that [of t] t w by (simp add: execute_eq seq_Inr)
qed

section \<open>No panic\<close>

definition clock_ok :: "nat \<Rightarrow> sys \<Rightarrow> bool" where
  \<comment> \<open>The monotonic clock is far from the end of its range.\<close>
  "clock_ok d s \<longleftrightarrow> (\<forall>i. (os_clock s i + d) div nanos 1 \<le> 2 ^ 63 - 1)"

lemma never_wait_readable: "never Panic (wait_readable deadline)"
proof -
  have "never Panic instant_now" "never Panic (poll_port n)" for n
    by (auto simp: never_def instant_now_def poll_port_def Let_def split: list.splits)
  then show ?thesis
    unfolding wait_readable_def Let_def
    by (auto intro!: never_intros split: option.split poll_answer.split)
qed

lemma never_read_chunk: "never Panic read_chunk"
  by (auto simp: never_def read_chunk_def Let_def split: list.splits sum.splits)

lemma never_fill_buffer: "never Panic (fill_buffer deadline)"
proof -
  have "never Panic (\<lambda>s. (Inr (), s\<lparr>inbuf := inbuf s @ c\<rparr>) :: (error, unit) res \<times> sys)" for c
    by (simp add: never_def)
  then show ?thesis
    unfolding fill_buffer_def
    by (intro never_intros never_wait_readable never_read_chunk)
qed

lemma buffered_frame_clean: "buffered_frame buf \<noteq> Inl Panic"
  by (simp add: buffered_frame_def Let_def)

lemma read_message_loop_no_panic: "fst (read_message_loop deadline s) \<noteq> Inl Panic"
proof (induction deadline s rule: read_message_loop.induct)
  case (1 deadline s)
  show ?case
    using buffered_frame_clean [of "inbuf s"] never_run [OF never_fill_buffer] "1.IH"
    by (subst read_message_loop.simps)
      (auto simp: seq_def split: sum.splits option.splits prod.splits)
qed

lemma recv_inner_no_panic:
  assumes "case timeout of None \<Rightarrow> True | Some d \<Rightarrow> clock_ok d s"
  shows "fst (recv_inner timeout s) \<noteq> Inl Panic"
proof -
  have rd: "fst (read_message timeout s) \<noteq> Inl Panic"
    using assms read_message_loop_no_panic
    by (cases timeout)
      (simp_all add: read_message_def instant_now_def instant_add_def clock_ok_def seq_def)
  show ?thesis
  proof (cases "read_message timeout s")
    case (Pair x t)
    show ?thesis
    proof (cases x)
      case (Inl e)
      with Pair rd show ?thesis by (simp add: recv_inner_def seq_Inl)
    next
      case (Inr raw)
      then have "length raw \<le> isize_max"
        using read_message_stream(2) [OF Pair, of raw] by (simp add: is_frame_def MAX_MESSAGE_LEN_def)
      then have "parse raw \<noteq> Inl Panic" by (rule parse_clean_frame)
      then show ?thesis
        using Pair Inr by (cases "parse raw") (auto simp: recv_inner_def seq_def)
    qed
  qed
qed

lemma execute_no_panic_clock:
  assumes "clock_ok timeout s"
  shows "fst (execute_with_timeout cmd payload m timeout s) \<noteq> Inl Panic"
proof
  assume panic: "fst (execute_with_timeout cmd payload m timeout s) = Inl Panic"
  have "never Panic (write_all (packet cmd payload m))"
    by (auto simp: never_def write_all_def Let_def split: list.splits option.splits)
  then obtain u where w: "write_all (packet cmd payload m) s = (Inr (), u)"
    and loop: "fst (execute_loop timeout u) = Inl Panic"
    using panic never_run [of Panic "write_all (packet cmd payload m)" s]
    by (auto simp: execute_eq seq_def split: prod.splits sum.splits)
  obtain ms v where "receives (recv_inner (Some timeout)) u ms v"
    and "fst (recv_inner (Some timeout) v) = Inl Panic"
    using respond.loop_outcome [of timeout u] loop by auto
  moreover from this(1) have "os_clock v = os_clock u"
    using receives_messages by (fastforce simp: listens_def evolves_def)
  ultimately show False
    using recv_inner_no_panic [where timeout = "Some timeout" and s = v] assms write_all_ok(4) [OF w]
    by (simp add: clock_ok_def)
qed

lemma recv_no_panic: "fst (recv s) \<noteq> Inl Panic"
  unfolding recv_def by (rule recv_inner_no_panic) simp

lemma clock_ok_mono: "clock_ok d s \<Longrightarrow> e \<le> d \<Longrightarrow> clock_ok e s"
  unfolding clock_ok_def by (meson add_left_mono div_le_mono order_trans)

lemma evolves_clock_ok: "evolves s t \<Longrightarrow> clock_ok d t \<longleftrightarrow> clock_ok d s"
  by (simp add: evolves_def clock_ok_def)

section \<open>A concrete peer\<close>

definition peer_sys :: "nat \<Rightarrow> byte list \<Rightarrow> sys" where
  \<comment> \<open>A peer that accepts \<open>n\<close> writes and delivers some bytes in one read, for the witnesses.\<close>
  "peer_sys n bs = quiet_sys\<lparr>os_writes := replicate n None, os_reads := [Inr bs],
     os_polls := replicate (1 + 2 * length bs) (PollReady 1)\<rparr>"

lemma peer_sys_facts:
  "stream (peer_sys n bs) = bs" "bs \<noteq> [] \<Longrightarrow> fed (peer_sys n bs)"
  "0 < d \<Longrightarrow> d \<le> nanos 120 \<Longrightarrow> prompt (Some d) (peer_sys n bs)"
  "os_writes (peer_sys (Suc n) bs) = None # replicate n None"
  "clock_ok (nanos 120) (peer_sys n bs)" "sent (peer_sys n bs) = []"
  by (auto simp: peer_sys_def quiet_sys_def stream_def fed_def prompt_def pending_def nanos_def
      clock_ok_def sent_def map_filter_def intro!: order_trans [OF div_le_dividend])

lemma zero_response:
  "is_frame (packet cmd (asn_int v) Sync)"
  "raw_id cmd < 2000 \<Longrightarrow> parse (packet cmd (asn_int v) Sync) =
     Inr \<lparr>msg_tid = TXID_SYNC, msg_kind = Response, msg_code = raw_id cmd,
       msg_body = asn_int v, msg_content = [ValInt v]\<rparr>"
proof -
  show "is_frame (packet cmd (asn_int v) Sync)"
    by (rule packet_is_frame) (simp add: MAX_MESSAGE_LEN_def)
  have "decode_values (asn_int v @ []) = Inr [ValInt v]" by (rule decode_values_asn_int) simp_all
  then show "raw_id cmd < 2000 \<Longrightarrow> parse (packet cmd (asn_int v) Sync) =
     Inr \<lparr>msg_tid = TXID_SYNC, msg_kind = Response, msg_code = raw_id cmd,
       msg_body = asn_int v, msg_content = [ValInt v]\<rparr>"
    using parse_packet [of cmd "asn_int v" "[ValInt v]" Sync] by (simp add: request_tid_def)
qed

lemma packet_nonempty [simp]: "packet cmd payload m \<noteq> []"
  using length_packet [of cmd payload m] by force

lemma execute_answered_ex:
  assumes "os_writes s = None # ws" and "prompt (Some RESPONSE_TIMEOUT) s" and "fed s"
    and "stream s = concat raws @ raw @ rest" and "messages raws ms"
    and "\<forall>m \<in> set ms. msg_kind m \<noteq> Response"
    and "is_frame raw" and "parse raw = Inr r" and "msg_kind r = Response"
  shows "\<exists>t. execute cmd payload m s = (Inr r, t) \<and> stream t = rest \<and>
    prompt (Some RESPONSE_TIMEOUT) t \<and> fed t \<and> os_writes t = ws"
  using execute_answered [OF assms, of cmd payload m] unfolding execute_def by blast

lemma peer_answers:
  assumes "raw_id cmd < 2000"
  obtains t r where "execute c p m (peer_sys (Suc n) (packet cmd (asn_int v) Sync)) = (Inr r, t)"
    "stream t = []"
proof -
  let ?raw = "packet cmd (asn_int v) Sync"
  let ?r = "\<lparr>msg_tid = TXID_SYNC, msg_kind = Response, msg_code = raw_id cmd,
       msg_body = asn_int v, msg_content = [ValInt v]\<rparr>"
  have "0 < RESPONSE_TIMEOUT" "RESPONSE_TIMEOUT \<le> nanos 120"
    by (simp_all add: RESPONSE_TIMEOUT_def nanos_def)
  then have "\<exists>t. execute c p m (peer_sys (Suc n) ?raw) = (Inr ?r, t) \<and> stream t = [] \<and>
      prompt (Some RESPONSE_TIMEOUT) t \<and> fed t \<and> os_writes t = replicate n None"
    using zero_response [of cmd v] assms
    by (intro execute_answered_ex [where raws = "[]" and ms = "[]" and raw = ?raw])
      (simp_all add: peer_sys_facts)
  then show thesis using that by blast
qed

section \<open>Messages that arrive one by one\<close>

definition sluggish :: "nat \<Rightarrow> byte list list \<Rightarrow> sys \<Rightarrow> bool" where
  \<comment> \<open>Each frame comes with a read of its own, and each within the timeout of its own wait.\<close>
  "sluggish timeout raws s \<longleftrightarrow>
     inbuf s = [] \<and> os_reads s = map Inr raws \<and> os_polls s = replicate (length raws) (PollReady 1) \<and>
     (\<forall>i < length raws. let start = os_clock s (os_ticks s + 2 * i)
        in os_clock s (os_ticks s + 2 * i + 1) < start + timeout \<and>
          (start + timeout) div nanos 1 \<le> 2 ^ 63 - 1)"

lemma read_message_sluggish:
  assumes "sluggish timeout (raw # raws) s" and "is_frame raw" and "length raw \<le> READ_BUF_LEN"
  shows "\<exists>t. read_message (Some timeout) s = (Inr raw, t) \<and> sluggish timeout raws t \<and>
    os_ticks t = os_ticks s + 2 \<and> os_clock t = os_clock s"
proof -
  let ?c = "os_clock s" and ?k = "os_ticks s"
  define u where "u = s\<lparr>os_ticks := ?k + 1\<rparr>"
  define v where "v = s\<lparr>os_ticks := ?k + 2, os_polls := replicate (length raws) (PollReady 1),
    os_reads := map Inr raws, inbuf := raw,
    os_calls := os_calls s @ [OsPoll (poll_ms (?c ?k + timeout) (?c (?k + 1))), OsRead]\<rparr>"
  have "20 \<le> length raw" using assms(2) by (simp add: is_frame_def)
  then have ne: "raw \<noteq> []" by auto
  have pace: "?c (?k + 2 * i + 1) < ?c (?k + 2 * i) + timeout \<and>
      (?c (?k + 2 * i) + timeout) div nanos 1 \<le> 2 ^ 63 - 1" if "i \<le> length raws" for i
    using assms(1) that by (simp add: sluggish_def Let_def less_Suc_eq_le)
  have early: "?c (?k + 1) < ?c ?k + timeout" using pace [of 0] by simp
  have "instant_add (?c ?k) timeout = (Inr (?c ?k + timeout) :: (error, nat) res)"
    using pace [of 0] by (simp add: instant_add_def)
  then have "read_message (Some timeout) s = read_message_loop (Some (?c ?k + timeout)) u"
    by (simp add: read_message_def instant_now_def seq_def u_def)
  moreover have "fill_buffer (Some (?c ?k + timeout)) u = (Inr (), v)"
    using assms(1,3) ne early
    by (simp add: sluggish_def fill_buffer_def wait_readable_def instant_now_def poll_port_def
        read_chunk_def seq_def Let_def u_def v_def poll_ms_def log_call_def)
  moreover have "buffered_frame (inbuf u) = Inr None"
    using assms(1) by (simp add: sluggish_def u_def buffered_frame_def)
  moreover have "buffered_frame (inbuf v) = Inr (Some (length raw))"
    using buffered_frame_of_frame [OF assms(2), of "[]"] by (simp add: v_def)
  ultimately have "read_message (Some timeout) s = (Inr raw, v\<lparr>inbuf := []\<rparr>)"
    by (simp add: read_message_loop.simps [of _ u] read_message_loop.simps [of _ v] seq_Inr)
      (simp add: v_def)
  moreover have "sluggish timeout raws (v\<lparr>inbuf := []\<rparr>)"
    using assms(1) pace [of "Suc i" for i] by (simp add: sluggish_def v_def Let_def)
  ultimately show ?thesis by (simp add: v_def)
qed


lemma recv_inner_sluggish:
  assumes "sluggish timeout (raw # raws) s" and "is_frame raw" and "length raw \<le> READ_BUF_LEN"
    and "parse raw = Inr m"
  shows "\<exists>t. recv_inner (Some timeout) s = (Inr m, t) \<and> sluggish timeout raws t \<and>
    os_ticks t = os_ticks s + 2 \<and> os_clock t = os_clock s"
proof -
  obtain u where u: "read_message (Some timeout) s = (Inr raw, u)" "sluggish timeout raws u"
      "os_ticks u = os_ticks s + 2" "os_clock u = os_clock s"
    using read_message_sluggish [OF assms(1-3)] by blast
  let ?t = "if msg_kind m = UnsolicitedInd then handle_unsolicited m u else u"
  have "recv_inner (Some timeout) s = (Inr m, ?t)"
    using u(1) assms(4) by (simp add: recv_inner_def seq_Inr)
  moreover have "sluggish timeout raws ?t \<and> os_ticks ?t = os_ticks s + 2 \<and> os_clock ?t = os_clock s"
    using u(2-4) by (auto simp: handle_unsolicited_def sluggish_def split: option.split)
  ultimately show ?thesis by blast
qed

lemma receives_sluggish:
  assumes "messages raws ms" and "\<forall>raw \<in> set raws. length raw \<le> READ_BUF_LEN"
    and "sluggish timeout (raws @ rest) s"
  shows "\<exists>t. receives (recv_inner (Some timeout)) s ms t \<and> sluggish timeout rest t \<and>
    os_ticks t = os_ticks s + 2 * length ms \<and> os_clock t = os_clock s"
  using assms
proof (induction raws arbitrary: ms s)
  case Nil
  then show ?case by (simp add: messages_def)
next
  case (Cons raw raws)
  then obtain m ms' where ms: "ms = m # ms'" "is_frame raw" "parse raw = Inr m" "messages raws ms'"
    by (auto simp: messages_def list_all2_Cons1)
  obtain u where u: "recv_inner (Some timeout) s = (Inr m, u)" "sluggish timeout (raws @ rest) u"
      "os_ticks u = os_ticks s + 2" "os_clock u = os_clock s"
    using recv_inner_sluggish [of timeout raw "raws @ rest" s m] ms(2,3) Cons.prems(2,3) by auto
  then show ?case using Cons.IH [OF ms(4) _ u(2)] Cons.prems(2) ms(1) by auto
qed

lemma execute_sluggish:
  assumes "sluggish timeout (raws @ [raw]) s" and "os_writes s = None # ws"
    and "list_all2 (\<lambda>raw m. is_frame raw \<and> parse raw = Inr m) (raws @ [raw]) (ms @ [r])"
    and "\<forall>raw \<in> set (raws @ [raw]). length raw \<le> READ_BUF_LEN"
    and "\<forall>m \<in> set ms. msg_kind m \<noteq> Response" and "msg_kind r = Response"
  shows "\<exists>t. execute_with_timeout cmd payload m timeout s = (Inr r, t) \<and> os_clock t = os_clock s \<and>
    os_ticks t = os_ticks s + 2 * length ms + 2"
proof -
  have ok: "messages raws ms" "is_frame raw" "parse raw = Inr r"
    using messages_snoc [OF assms(3)] by blast+
  let ?s = "(log_call (OsWrite (build_header cmd (length payload) m @ payload)) s)\<lparr>os_writes := ws\<rparr>"
  have "sluggish timeout (raws @ [raw]) ?s" using assms(1) by (simp add: sluggish_def)
  then obtain u where u: "receives (recv_inner (Some timeout)) ?s ms u" "sluggish timeout [raw] u"
      "os_ticks u = os_ticks s + 2 * length ms" "os_clock u = os_clock s"
    using receives_sluggish [OF ok(1), of timeout "[raw]" ?s] assms(4) by auto
  obtain t where t: "recv_inner (Some timeout) u = (Inr r, t)" "os_ticks t = os_ticks u + 2"
      "os_clock t = os_clock u"
    using recv_inner_sluggish [OF u(2) ok(2) _ ok(3)] assms(4) by auto
  have "execute_loop timeout ?s = (Inr r, t)"
    using respond.loop_stops [OF u(1) _ t(1)] assms(5,6) by simp
  then have "execute_with_timeout cmd payload m timeout s = (Inr r, t)"
    using assms(2) by (simp add: execute_with_timeout_def write_all_def seq_def Let_def log_call_def)
  with t u show ?thesis by simp
qed

section \<open>Properties\<close>

text \<open>C15: Parsing a frame never panics, although it removes the first value and the first six bytes of
  an asynchronous response: the echoed id it has just checked needs exactly six bytes.  What it
  leaves as the body decodes to what it leaves as the content.\<close>

theorem parse_is_safe:
  assumes "length raw \<le> isize_max"
  shows "parse raw \<noteq> Inl Panic \<and> parse raw \<noteq> Inl Blocked \<and>
    (\<forall>m. parse raw = Inr m \<longrightarrow> decode_values (msg_body m) = Inr (msg_content m))"
  using parse_clean_frame [OF assms] parse_body [OF _ assms] by blast

theorem parse_is_safe_witness: "parse [1, 2, 3] \<noteq> Inl Panic"
  using parse_is_safe [of "[1, 2, 3]"] by simp

text \<open>C16: The classification of a received message: the synchronous id makes a response; an id of the
  asynchronous range an acknowledgement when the code is 2000 or more, and otherwise a response whose
  first value was the id itself; any other id an unsolicited indication.\<close>

theorem parse_classifies:
  assumes "parse raw = Inr m"
  shows "msg_kind m =
    (if msg_tid m = TXID_SYNC then Response
     else if msg_tid m AND 0xffffff00 = TXID_SYNC
     then (if 2000 \<le> msg_code m then AsyncAck else Response)
     else UnsolicitedInd) \<and>
    decode_values (drop 20 raw) =
      Inr (if msg_tid m \<noteq> TXID_SYNC \<and> msg_kind m = Response
           then ValInt (msg_tid m) # msg_content m else msg_content m)"
proof -
  obtain content where d: "decode_values (drop 20 raw) = Inr content"
    and "classify (msg_tid m) (msg_code m) (drop 20 raw) content = Inr m"
    using assms classify_tid_code by (auto simp: parse_eq_Inr)
  from this(2) show ?thesis
    using d by (cases rule: classify_cases) (auto simp: TXID_SYNC_def)
qed

theorem parse_classifies_witness:
  "\<exists>m. parse (frame_for 0 0x6c (asn_int 0)) = Inr m \<and> msg_kind m = UnsolicitedInd"
proof -
  have "decode_values (asn_int 0 @ []) = Inr [ValInt 0]" by (rule decode_values_asn_int) simp_all
  then have run: "parse (frame_for 0 0x6c (asn_int 0)) = Inr \<lparr>msg_tid = 0, msg_kind = UnsolicitedInd,
      msg_code = 0x6c, msg_body = asn_int 0, msg_content = [ValInt 0]\<rparr>"
    by (simp add: parse_frame_for classify_def TXID_SYNC_def)
  with parse_classifies [OF run] show ?thesis by (simp add: TXID_SYNC_def)
qed

text \<open>C17: The packet written by \<open>execute\<close> and the parser agree: a packet is one frame (its length
  prefix is right), it carries the command, the id of its mode and the payload, and read back by
  \<open>Message::parse\<close> it is the response with that code and exactly that payload as body.\<close>

theorem packet_round_trip:
  assumes "raw_id cmd < 2000" and "decode_values payload = Inr content"
    and "length payload + 26 \<le> MAX_MESSAGE_LEN"
  shows "is_frame (build_header cmd (length payload) m @ payload) \<and>
    parse (build_header cmd (length payload) m @ payload) =
      Inr \<lparr>msg_tid = (case m of Sync \<Rightarrow> TXID_SYNC | Async \<Rightarrow> TXID_ASYNC), msg_kind = Response,
        msg_code = raw_id cmd, msg_body = payload, msg_content = content\<rparr>"
  using packet_is_frame [of payload cmd m] parse_packet [of cmd payload content m] assms
  by (simp add: packet_def request_tid_def MAX_MESSAGE_LEN_def)

theorem packet_round_trip_witness:
  "is_frame (build_header (CallId 0x30) (length (asn_int 9)) Async @ asn_int 9)"
proof -
  have "decode_values (asn_int 9 @ []) = Inr [ValInt 9]" by (rule decode_values_asn_int) simp_all
  then show ?thesis
    using packet_round_trip [of "CallId 0x30" "asn_int 9" "[ValInt 9]" Async]
    by (simp add: MAX_MESSAGE_LEN_def)
qed

text \<open>C4: What \<open>execute\<close> returns is the first response in the byte stream: it sends one packet, skips
  the acknowledgements and indications in front of the response, leaves what follows it in the
  stream, and has let exactly the skipped indications update \<open>attach_allowed\<close>.\<close>

theorem execute_returns_first_response:
  assumes "execute cmd payload m s = (Inr r, t)"
  shows "\<exists>raws ms raw.
    stream s = concat raws @ raw @ stream t \<and>
    list_all2 (\<lambda>raw m. is_frame raw \<and> parse raw = Inr m) (raws @ [raw]) (ms @ [r]) \<and>
    (\<forall>m \<in> set ms. msg_kind m \<noteq> Response) \<and> msg_kind r = Response \<and>
    sent t = sent s @ [packet cmd payload m] \<and>
    attach_allowed t = foldl attach_flag (attach_allowed s) ms"
proof -
  obtain raws ms raw where "messages raws ms" "is_frame raw" "parse raw = Inr r"
    "stream s = concat raws @ raw @ stream t" "\<forall>m \<in> set ms. msg_kind m \<noteq> Response"
    "msg_kind r = Response" "sent t = sent s @ [packet cmd payload m]"
    "attach_allowed t = foldl attach_flag (attach_allowed s) ms"
    using assms unfolding execute_def by (rule execute_response)
  then show ?thesis
    by (intro exI [of _ raws] exI [of _ ms] exI [of _ raw])
      (simp add: messages_def list_all2_appendI)
qed

theorem execute_returns_first_response_witness:
  "\<exists>r t. execute (CallId 0x30) [] Sync (peer_sys 1 (packet (CallId 0x30) (asn_int 7) Sync)) =
      (Inr r, t) \<and> msg_kind r = Response \<and> sent t = [packet (CallId 0x30) [] Sync]"
proof -
  obtain r t where run: "execute (CallId 0x30) [] Sync
      (peer_sys (Suc 0) (packet (CallId 0x30) (asn_int 7) Sync)) = (Inr r, t)"
    by (rule peer_answers [of "CallId 0x30"]) simp_all
  with execute_returns_first_response [OF run] show ?thesis by (auto simp: peer_sys_facts)
qed

text \<open>C5: A modem that answers is heard: if the write succeeds, no deadline is reached and the byte
  stream holds messages up to a response, \<open>execute\<close> returns that response and leaves the rest of the
  stream, however the bytes arrive.\<close>

theorem execute_hears_answer:
  assumes "os_writes s = None # ws" and "prompt (Some RESPONSE_TIMEOUT) s" and "fed s"
    and "stream s = concat raws @ raw @ rest"
    and "list_all2 (\<lambda>raw m. is_frame raw \<and> parse raw = Inr m) (raws @ [raw]) (ms @ [r])"
    and "\<forall>m \<in> set ms. msg_kind m \<noteq> Response" and "msg_kind r = Response"
  shows "\<exists>t. execute cmd payload m s = (Inr r, t) \<and> stream t = rest"
proof -
  have ok: "messages raws ms" "is_frame raw" "parse raw = Inr r"
    using messages_snoc [OF assms(5)] by blast+
  show ?thesis
    using execute_answered_ex [OF assms(1-4) ok(1) assms(6) ok(2,3) assms(7)] by blast
qed

theorem execute_hears_answer_witness:
  "\<exists>r t. execute (CallId 0x30) [] Sync (peer_sys 1 (packet (CallId 0x30) (asn_int 7) Sync)) =
      (Inr r, t) \<and> stream t = []"
  using execute_hears_answer [of "peer_sys 1 (packet (CallId 0x30) (asn_int 7) Sync)" "[]" "[]"
      "packet (CallId 0x30) (asn_int 7) Sync" "[]" "[]" _ "CallId 0x30" "[]" Sync]
    zero_response [of "CallId 0x30" 7]
    peer_sys_facts(4) [of 0]
  by (fastforce simp: peer_sys_facts RESPONSE_TIMEOUT_def nanos_def)

text \<open>C37: Reopening discards the state of the port and keeps its path: a successful \<open>reopen\<close> has
  dropped the buffered bytes and forgotten an earlier permission to attach; one that fails keeps both
  and closes nothing.  The calls it makes are, in this order, the open of the same path and the close of
  the old file, so that the device is open twice in between and is never closed first.\<close>

theorem reopen_resets:
  "case reopen s of
     (Inr _, t) \<Rightarrow> inbuf t = [] \<and> \<not> attach_allowed t \<and> rpc_path t = rpc_path s \<and>
       os_calls t = os_calls s @ [OsOpen (rpc_path s), OsClose]
   | (Inl e, t) \<Rightarrow> e \<noteq> Panic \<and> inbuf t = inbuf s \<and> attach_allowed t = attach_allowed s \<and>
       os_calls t = os_calls s @ [OsOpen (rpc_path s)]"
  by (auto simp: reopen_def open_port_def log_call_def seq_def Let_def split: list.splits option.splits)

text \<open>C36: The timeout of a request is one per message, not one for the request: when every message,
  skipped or not, arrives within the timeout of its own wait, \<open>execute_with_timeout\<close> returns the
  response after two clock readings per message, however many messages were skipped and so
  however long after the call it is.  (The documentation says it fails after the timeout.)\<close>

theorem timeout_restarts_per_message:
  assumes "sluggish timeout (raws @ [raw]) s" and "os_writes s = None # ws"
    and "list_all2 (\<lambda>raw m. is_frame raw \<and> parse raw = Inr m) (raws @ [raw]) (ms @ [r])"
    and "\<forall>raw \<in> set (raws @ [raw]). length raw \<le> READ_BUF_LEN"
    and "\<forall>m \<in> set ms. msg_kind m \<noteq> Response" and "msg_kind r = Response"
  shows "\<exists>t. execute_with_timeout cmd payload m timeout s = (Inr r, t) \<and> os_clock t = os_clock s \<and>
    os_ticks t = os_ticks s + 2 * length ms + 2"
  using assms by (rule execute_sluggish)

theorem timeout_restarts_per_message_witness:
  "\<exists>r t. execute_with_timeout (CallId 0x30) [] Sync (nanos 30) (quiet_sys\<lparr>os_clock := \<lambda>k. nanos (29 * min k 5),
      os_writes := [None], os_polls := replicate 3 (PollReady 1),
      os_reads := map Inr [frame_for 0 7 (asn_int 1), frame_for 0 8 (asn_int 1),
        packet (CallId 0x30) (asn_int 7) Sync]\<rparr>) = (Inr r, t) \<and>
     os_clock t (os_ticks t - 1) - os_clock t 0 = nanos (5 * 29)"
proof -
  define ind where "ind c = \<lparr>msg_tid = 0, msg_kind = UnsolicitedInd, msg_code = c,
    msg_body = asn_int 1, msg_content = [ValInt 1]\<rparr>" for c
  have one: "decode_values (asn_int 1) = Inr [ValInt 1]"
    using decode_values_asn_int [of "[]" "[]" 1] by simp
  have inds: "is_frame (frame_for 0 c (asn_int 1))" "parse (frame_for 0 c (asn_int 1)) = Inr (ind c)" for c
    using one frame_for_is_frame [of "asn_int 1" 0 c]
    by (simp_all add: parse_frame_for classify_def TXID_SYNC_def MAX_MESSAGE_LEN_def ind_def)
  show ?thesis
    using timeout_restarts_per_message [of "nanos 30" "[frame_for 0 7 (asn_int 1), frame_for 0 8 (asn_int 1)]"
      "packet (CallId 0x30) (asn_int 7) Sync" "quiet_sys\<lparr>os_clock := \<lambda>k. nanos (29 * min k 5),
      os_writes := [None], os_polls := replicate 3 (PollReady 1),
      os_reads := map Inr [frame_for 0 7 (asn_int 1), frame_for 0 8 (asn_int 1),
        packet (CallId 0x30) (asn_int 7) Sync]\<rparr>" "[]" "[ind 7, ind 8]" _ "CallId 0x30" "[]" Sync]
    using zero_response [of "CallId 0x30" 7] inds
    by (auto simp: sluggish_def quiet_sys_def nanos_def ind_def READ_BUF_LEN_def length_packet
      echo_len_def numeral_3_eq_3 Let_def less_Suc_eq)
qed

end
