(* ===== verification/Requests.thy ===== *)
theory Requests
  imports Codec
begin

text \<open>
  \<open>src/src/requests.rs\<close>: the payload builders and the parsers of the responses.  A builder that
  ends in \<open>expect\<close> can panic in the model, and is shown not to.  An \<open>Ipv4Addr\<close> is its four octets,
  an \<open>Ipv6Addr\<close> its sixteen octets.
\<close>

section \<open>Builders\<close>

definition net_attach :: "('e, byte list) res" where
  "net_attach = expect (pack ''BLLLLHHLL''
     [ArgInt 0, ArgInt 0, ArgInt 0, ArgInt 0, ArgInt 0, ArgInt 0xffff, ArgInt 0xffff,
      ArgInt 0, ArgInt 0])"

definition get_neg_ip :: "('e, byte list) res" where
  "get_neg_ip = expect (pack ''BLL'' [ArgInt 0, ArgInt 0, ArgInt 0])"

definition get_neg_dns :: "('e, byte list) res" where
  "get_neg_dns = expect (pack ''BLL'' [ArgInt 0, ArgInt 0, ArgInt 0])"

definition ps_connect :: "('e, byte list) res" where
  "ps_connect = expect (pack ''BLLL'' [ArgInt 0, ArgInt 6, ArgInt 0, ArgInt 0])"

definition connect_to_datachannel :: "string \<Rightarrow> (codec_error, byte list) res" where
  "connect_to_datachannel path = pack ''s24'' [ArgBytes (str_bytes path @ [0])]"

definition sys_get_info :: "u32 \<Rightarrow> ('e, byte list) res" where
  "sys_get_info index = expect (pack ''Ls0L'' [ArgInt 0, ArgBytes [], ArgInt index])"

section \<open>Parsers\<close>

type_synonym ipv4 = "byte \<times> byte \<times> byte \<times> byte"
type_synonym ipv6 = "byte list"

definition UNSPECIFIED :: ipv4 where
  \<comment> \<open>\<open>Ipv4Addr::UNSPECIFIED\<close>\<close>
  "UNSPECIFIED = (0, 0, 0, 0)"

record dns_servers =
  dns_v4 :: "ipv4 list"
  dns_v6 :: "ipv6 list"

definition ipv4_at :: "byte list \<Rightarrow> nat \<Rightarrow> ipv4" where
  "ipv4_at bs i = (bs ! i, bs ! (i + 1), bs ! (i + 2), bs ! (i + 3))"

definition parse_neg_ip :: "byte list \<Rightarrow> (codec_error, ipv4 list) res" where
  "parse_neg_ip body =
     rbind (unpack ''nsnnnn'' body) (\<lambda>values.
     rbind (ok_or MissingArgument (Option.bind (slice_get values 1) as_bytes)) (\<lambda>addresses.
     if length addresses < 12 then Inl (Err UnexpectedEof)
     else Inr [ipv4_at addresses 0, ipv4_at addresses 4, ipv4_at addresses 8]))"

definition dns_format :: string where
  "dns_format = ''n'' @ concat (replicate 16 ''sn'') @ ''nsnnnn''"

definition add_server :: "u32 \<Rightarrow> codec_value \<Rightarrow> dns_servers \<Rightarrow> dns_servers" where
  \<comment> \<open>The \<open>match (kind, value.as_bytes())\<close> of the loop.\<close>
  "add_server kind value servers =
     (case as_bytes value of
        None \<Rightarrow> servers
      | Some bytes \<Rightarrow>
          if kind = 1 \<and> 4 \<le> length bytes
          then servers\<lparr>dns_v4 := dns_v4 servers @ [ipv4_at bytes 0]\<rparr>
          else if kind = 2 \<and> 16 \<le> length bytes
          then servers\<lparr>dns_v6 := dns_v6 servers @ [take 16 bytes]\<rparr>
          else servers)"

fun dns_loop :: "codec_value list \<Rightarrow> nat \<Rightarrow> nat \<Rightarrow> dns_servers \<Rightarrow> dns_servers" where
  \<comment> \<open>\<open>for i in 0..16\<close> with its two \<open>break\<close>s; the second argument counts the rounds to go.\<close>
  "dns_loop values 0 i servers = servers"
| "dns_loop values (Suc k) i servers =
     (case slice_get values (2 * i + 1) of
        None \<Rightarrow> servers
      | Some value \<Rightarrow>
          (case Option.bind (slice_get values (2 * i + 2)) as_int of
             None \<Rightarrow> servers
           | Some kind \<Rightarrow> dns_loop values k (Suc i) (add_server kind value servers)))"

definition parse_dns :: "byte list \<Rightarrow> (codec_error, dns_servers) res" where
  "parse_dns body =
     rbind (unpack dns_format body) (\<lambda>values.
     Inr (dns_loop values 16 0 \<lparr>dns_v4 = [], dns_v6 = []\<rparr>))"

definition parse_sys_info :: "byte list \<Rightarrow> (codec_error, byte list) res" where
  "parse_sys_info body =
     rbind (unpack ''nns'' body) (\<lambda>values.
     ok_or MissingArgument
       (Option.bind (if values = [] then None else Some (last values)) as_bytes))"

section \<open>The builders succeed\<close>

abbreviation B8 :: spec where "B8 \<equiv> IntSpec (CHR ''B'') 1"
abbreviation H16 :: spec where "H16 \<equiv> IntSpec (CHR ''H'') 2"
abbreviation L32 :: spec where "L32 \<equiv> IntSpec (CHR ''L'') 4"

lemma int_spec_ok [simp]: "spec_ok B8" "spec_ok H16" "spec_ok L32"
  by (simp_all add: elem_width_def)

lemma expect_pack_render:
  assumes "sendable sps args" and "render sps = fmt"
  shows "expect (pack fmt args) = Inr (layout sps args)"
  using pack_render [of sps args] assms by (auto simp: sendable_def)

lemma net_attach_bytes:
  "net_attach = Inr (layout [B8, L32, L32, L32, L32, H16, H16, L32, L32]
     [ArgInt 0, ArgInt 0, ArgInt 0, ArgInt 0, ArgInt 0, ArgInt 0xffff, ArgInt 0xffff,
      ArgInt 0, ArgInt 0])"
  unfolding net_attach_def
  by (rule expect_pack_render) (simp_all add: sendable_def elem_width_def int_bytes_def)

lemma get_neg_ip_bytes:
  "get_neg_ip = Inr (layout [B8, L32, L32] [ArgInt 0, ArgInt 0, ArgInt 0])"
  unfolding get_neg_ip_def
  by (rule expect_pack_render) (simp_all add: sendable_def elem_width_def int_bytes_def)

lemma get_neg_dns_bytes:
  "get_neg_dns = Inr (layout [B8, L32, L32] [ArgInt 0, ArgInt 0, ArgInt 0])"
  unfolding get_neg_dns_def
  by (rule expect_pack_render) (simp_all add: sendable_def elem_width_def int_bytes_def)

lemma ps_connect_bytes:
  "ps_connect = Inr (layout [B8, L32, L32, L32] [ArgInt 0, ArgInt 6, ArgInt 0, ArgInt 0])"
  unfolding ps_connect_def
  by (rule expect_pack_render) (simp_all add: sendable_def elem_width_def int_bytes_def)

lemma sys_get_info_bytes:
  "sys_get_info index = Inr (layout [L32, ByteStr 0, L32] [ArgInt 0, ArgBytes [], ArgInt index])"
  unfolding sys_get_info_def
  by (rule expect_pack_render)
    (simp_all add: sendable_def elem_width_def int_bytes_def string_bytes_def fits_def
      length_field_def dec_string_eval)

lemma connect_to_datachannel_fits:
  assumes "length path \<le> 23"
  shows "connect_to_datachannel path = Inr (layout [ByteStr 24] [ArgBytes (str_bytes path @ [0])])"
proof -
  have "sendable [ByteStr 24] [ArgBytes (str_bytes path @ [0])]"
    using assms length_string_bytes_le(1) [of 24 1 "str_bytes path @ [0]"]
    by (simp add: sendable_def fits_def)
  then show ?thesis
    using pack_render [of "[ByteStr 24]" "[ArgBytes (str_bytes path @ [0])]"]
    by (simp add: connect_to_datachannel_def sendable_def dec_string_eval)
qed

lemma connect_to_datachannel_overflow:
  "23 < length path \<Longrightarrow>
   connect_to_datachannel path = Inl (Err (StringOverflow (length path + 1) 24))"
  by (simp add: connect_to_datachannel_def pack_def pack_item_def elem_width_def pack_string_def
      is_digit_def parse_usize_def Let_def)

text \<open>The payloads by name.\<close>

definition attach_payload :: "byte list" where
  "attach_payload = layout [B8, L32, L32, L32, L32, H16, H16, L32, L32]
     [ArgInt 0, ArgInt 0, ArgInt 0, ArgInt 0, ArgInt 0, ArgInt 0xffff, ArgInt 0xffff,
      ArgInt 0, ArgInt 0]"

definition query_payload :: "byte list" where
  "query_payload = layout [B8, L32, L32] [ArgInt 0, ArgInt 0, ArgInt 0]"

definition connect_payload :: "byte list" where
  "connect_payload = layout [B8, L32, L32, L32] [ArgInt 0, ArgInt 6, ArgInt 0, ArgInt 0]"

definition channel_payload :: "string \<Rightarrow> byte list" where
  "channel_payload path = layout [ByteStr 24] [ArgBytes (str_bytes path @ [0])]"

definition info_payload :: "u32 \<Rightarrow> byte list" where
  "info_payload index = layout [L32, ByteStr 0, L32] [ArgInt 0, ArgBytes [], ArgInt index]"

lemma builder_payloads:
  "net_attach = Inr attach_payload" "get_neg_ip = Inr query_payload"
  "get_neg_dns = Inr query_payload" "ps_connect = Inr connect_payload"
  "sys_get_info index = Inr (info_payload index)"
  by (simp_all add: attach_payload_def query_payload_def connect_payload_def info_payload_def
      net_attach_bytes get_neg_ip_bytes get_neg_dns_bytes ps_connect_bytes sys_get_info_bytes)

section \<open>The parsers read what a response holds\<close>

text \<open>A reference reading of the sixteen server slots: an address and its kind each.\<close>

definition slot_values :: "(u32 \<times> byte list) list \<Rightarrow> codec_value list" where
  "slot_values es = concat (map (\<lambda>(k, b). [ValBytes b, ValInt k]) es)"

definition v4_servers :: "(u32 \<times> byte list) list \<Rightarrow> ipv4 list" where
  "v4_servers es = [ipv4_at b 0. (k, b) \<leftarrow> es, k = 1 \<and> 4 \<le> length b]"

definition v6_servers :: "(u32 \<times> byte list) list \<Rightarrow> ipv6 list" where
  "v6_servers es = [take 16 b. (k, b) \<leftarrow> es, k = 2 \<and> 16 \<le> length b]"

lemma slot_simps [simp]:
  "slot_values [] = []" "slot_values ((k, b) # es) = ValBytes b # ValInt k # slot_values es"
  "v4_servers [] = []" "v6_servers [] = []"
  "v4_servers ((k, b) # es) =
    (if k = 1 \<and> 4 \<le> length b then ipv4_at b 0 # v4_servers es else v4_servers es)"
  "v6_servers ((k, b) # es) =
    (if k = 2 \<and> 16 \<le> length b then take 16 b # v6_servers es else v6_servers es)"
  by (simp_all add: slot_values_def v4_servers_def v6_servers_def)

lemma dns_loop_slots:
  assumes "length pre = 2 * i + 1"
  shows "dns_loop (pre @ slot_values es @ rest) (length es) i servers =
    servers\<lparr>dns_v4 := dns_v4 servers @ v4_servers es, dns_v6 := dns_v6 servers @ v6_servers es\<rparr>"
  using assms
proof (induction es arbitrary: pre i servers)
  case Nil
  then show ?case by simp
next
  case (Cons e es)
  obtain k b where e: "e = (k, b)" by (cases e)
  have "dns_loop (pre @ slot_values (e # es) @ rest) (length (e # es)) i servers =
      dns_loop ((pre @ [ValBytes b, ValInt k]) @ slot_values es @ rest) (length es) (Suc i)
        (add_server k (ValBytes b) servers)"
    using Cons.prems by (simp add: e slice_get_def nth_append)
  also have "\<dots> = (add_server k (ValBytes b) servers)
      \<lparr>dns_v4 := dns_v4 (add_server k (ValBytes b) servers) @ v4_servers es,
       dns_v6 := dns_v6 (add_server k (ValBytes b) servers) @ v6_servers es\<rparr>"
    using Cons.prems by (intro Cons.IH) simp
  finally show ?case by (simp add: e add_server_def)
qed

lemma slots_of_shape:
  "list_all2 of_kind (concat (replicate n ''sn'') @ fmt) vs \<Longrightarrow>
   \<exists>es rest. length es = n \<and> vs = slot_values es @ rest \<and> list_all2 of_kind fmt rest"
proof (induction n arbitrary: vs)
  case 0
  then show ?case by simp
next
  case (Suc n)
  then obtain b k vs' where vs: "vs = ValBytes b # ValInt k # vs'"
    and "list_all2 of_kind (concat (replicate n ''sn'') @ fmt) vs'"
    by (auto simp: list_all2_Cons1)
  with Suc.IH [of vs'] obtain es rest where
    "length es = n" "vs' = slot_values es @ rest" "list_all2 of_kind fmt rest"
    by blast
  then have "length ((k, b) # es) = Suc n \<and> vs = slot_values ((k, b) # es) @ rest \<and>
      list_all2 of_kind fmt rest"
    by (simp add: vs)
  then show ?case by blast
qed

lemma parse_dns_slots:
  assumes "unpack dns_format body = Inr vs"
  obtains v es rest where "length es = 16" and "vs = v # slot_values es @ rest"
    and "parse_dns body = Inr \<lparr>dns_v4 = v4_servers es, dns_v6 = v6_servers es\<rparr>"
proof -
  from unpack_shape [OF assms] obtain v vs' where vs: "vs = v # vs'"
    and "list_all2 of_kind (concat (replicate 16 ''sn'') @ ''nsnnnn'') vs'"
    by (auto simp: dns_format_def list_all2_Cons1 simp del: replicate.simps)
  then obtain es rest where es: "length es = 16" "vs' = slot_values es @ rest"
    using slots_of_shape by blast
  have "parse_dns body = Inr \<lparr>dns_v4 = v4_servers es, dns_v6 = v6_servers es\<rparr>"
    using dns_loop_slots [of "[v]" 0 es rest] es assms vs by (simp add: parse_dns_def)
  with vs es show ?thesis by (intro that [of es v rest]) auto
qed

lemma parse_neg_ip_eq:
  "parse_neg_ip body =
     (case unpack ''nsnnnn'' body of
        Inl e \<Rightarrow> Inl e
      | Inr values \<Rightarrow>
          (case values ! 1 of
             ValBytes b \<Rightarrow>
               if length b < 12 then Inl (Err UnexpectedEof)
               else Inr [ipv4_at b 0, ipv4_at b 4, ipv4_at b 8]
           | ValInt _ \<Rightarrow> Inl (Err MissingArgument)))"
  using unpack_kind_at(1) [of "''nsnnnn''" body _ 1]
  by (auto simp: parse_neg_ip_def slice_get_def split: sum.splits codec_value.splits)

lemma parse_neg_ip_shape:
  assumes "unpack ''nsnnnn'' body = Inr vs"
  shows "\<exists>b. vs ! 1 = ValBytes b"
  using unpack_kind_at(2) [OF assms, of 1] by auto

lemma parse_sys_info_eq:
  "parse_sys_info body =
     rbind (unpack ''nns'' body) (\<lambda>values.
       case last values of ValBytes b \<Rightarrow> Inr b | ValInt _ \<Rightarrow> Inl (Err MissingArgument))"
proof (cases "unpack ''nns'' body")
  case (Inr vs)
  then have "vs \<noteq> []" using unpack_shape by fastforce
  then show ?thesis
    using Inr by (cases "last vs") (simp_all add: parse_sys_info_def)
qed (simp add: parse_sys_info_def)

lemma parse_sys_info_shape:
  assumes "unpack ''nns'' body = Inr vs"
  shows "\<exists>b. last vs = ValBytes b"
proof -
  have "list_all2 of_kind ''nns'' vs" using assms by (rule unpack_shape)
  then show ?thesis by (auto simp: list_all2_Cons1)
qed

section \<open>Properties\<close>

text \<open>The builders return exactly the byte vectors of the reference implementation; their
  \<open>expect("static format")\<close> cannot panic.\<close>

theorem builder_vectors:
  "net_attach = Inr
     [2, 1, 0, 2, 4, 0, 0, 0, 0, 2, 4, 0, 0, 0, 0, 2, 4, 0, 0, 0, 0, 2, 4, 0, 0, 0, 0,
      2, 2, 0xff, 0xff, 2, 2, 0xff, 0xff, 2, 4, 0, 0, 0, 0, 2, 4, 0, 0, 0, 0] \<and>
   get_neg_ip = Inr [2, 1, 0, 2, 4, 0, 0, 0, 0, 2, 4, 0, 0, 0, 0] \<and>
   get_neg_dns = Inr [2, 1, 0, 2, 4, 0, 0, 0, 0, 2, 4, 0, 0, 0, 0] \<and>
   ps_connect = Inr [2, 1, 0, 2, 4, 0, 0, 0, 6, 2, 4, 0, 0, 0, 0, 2, 4, 0, 0, 0, 0] \<and>
   sys_get_info index =
     Inr ([2, 4, 0, 0, 0, 0, 0x55, 0, 2, 4, 0, 0, 0, 0, 2, 4, 0, 0, 0, 0, 2, 4] @ to_be32 index)"
proof (intro conjI)
  note eval = int_bytes_def string_bytes_def to_be32_def tag_defs asn_int_def string_tag_def
    length_field_def
  show "net_attach = Inr
     [2, 1, 0, 2, 4, 0, 0, 0, 0, 2, 4, 0, 0, 0, 0, 2, 4, 0, 0, 0, 0, 2, 4, 0, 0, 0, 0,
      2, 2, 0xff, 0xff, 2, 2, 0xff, 0xff, 2, 4, 0, 0, 0, 0, 2, 4, 0, 0, 0, 0]"
    by (simp add: net_attach_bytes eval)
  show "get_neg_ip = Inr [2, 1, 0, 2, 4, 0, 0, 0, 0, 2, 4, 0, 0, 0, 0]"
    by (simp add: get_neg_ip_bytes eval)
  show "get_neg_dns = Inr [2, 1, 0, 2, 4, 0, 0, 0, 0, 2, 4, 0, 0, 0, 0]"
    by (simp add: get_neg_dns_bytes eval)
  show "ps_connect = Inr [2, 1, 0, 2, 4, 0, 0, 0, 6, 2, 4, 0, 0, 0, 0, 2, 4, 0, 0, 0, 0]"
    by (simp add: ps_connect_bytes eval)
  show "sys_get_info index =
     Inr ([2, 4, 0, 0, 0, 0, 0x55, 0, 2, 4, 0, 0, 0, 0, 2, 4, 0, 0, 0, 0, 2, 4] @ to_be32 index)"
    by (simp add: sys_get_info_bytes eval)
qed

text \<open>A data-channel path of at most 23 bytes is sent NUL-terminated in a field of 24 bytes;
  a longer one is refused, never truncated.\<close>

theorem datachannel_path_bound:
  "connect_to_datachannel path =
     (if length path \<le> 23
      then Inr ([0x55, of_nat (length path + 1)] @ asn_int 24 @ asn_int (of_nat (23 - length path))
             @ str_bytes path @ replicate (24 - length path) 0)
      else Inl (Err (StringOverflow (length path + 1) 24)))"
proof (cases "length path \<le> 23")
  case True
  have "0 # replicate (23 - length path) 0 = replicate (24 - length path) (0 :: byte)"
    using True by (simp add: Suc_diff_le flip: replicate_Suc)
  with True connect_to_datachannel_fits [OF True] show ?thesis
    by (simp add: string_bytes_def string_tag_def tag_defs length_field_def)
next
  case False
  then show ?thesis using connect_to_datachannel_overflow [of path] by simp
qed

text \<open>C32: The DNS response: of the sixteen slots of a decodable response, in order, the addresses of
  kind 1 with at least four bytes become the IPv4 servers and those of kind 2 with at least sixteen
  bytes the IPv6 servers; every other slot is skipped, and a body that does not decode is reported
  with the codec's error.\<close>

theorem parse_dns_reads_slots:
  "case unpack dns_format body of
     Inl e \<Rightarrow> parse_dns body = Inl e
   | Inr vs \<Rightarrow> \<exists>es. length es = 16 \<and> take 32 (tl vs) = slot_values es \<and>
       parse_dns body = Inr
         \<lparr>dns_v4 = [ipv4_at b 0. (k, b) \<leftarrow> es, k = 1 \<and> 4 \<le> length b],
          dns_v6 = [take 16 b. (k, b) \<leftarrow> es, k = 2 \<and> 16 \<le> length b]\<rparr>"
proof (cases "unpack dns_format body")
  case (Inl e)
  then show ?thesis by (simp add: parse_dns_def)
next
  case (Inr vs)
  obtain v es rest where es: "length es = 16" "vs = v # slot_values es @ rest"
    and dns: "parse_dns body = Inr \<lparr>dns_v4 = v4_servers es, dns_v6 = v6_servers es\<rparr>"
    using Inr by (rule parse_dns_slots)
  have "length (slot_values es) = 2 * length es"
    by (induction es) auto
  with es have "take 32 (tl vs) = slot_values es" by simp
  with Inr es(1) dns show ?thesis by (auto simp: v4_servers_def v6_servers_def)
qed

end
