(* ===== verification/Apn.thy ===== *)
theory Apn
  imports Requests
begin

text \<open>
  \<open>src/src/apn.rs\<close>: the attach-APN configuration request, its format string, its argument list
  and the layout the encoder gives it.
\<close>

definition APN_MAX_LEN :: nat where
  "APN_MAX_LEN = 101"

definition FORMAT :: string where
  "FORMAT = ''Bs260Ls66s65s250Bs252HLLLLLLLLLLLLLLLLLLLLLs20Ls104s260Ls66s65s250Bs252HLLLLLLLLLLLLLLLLLLLLLs20Ls104s260Ls66s65s250Bs252HLLLLLLLLLLLLLLLLLLLLLs20Ls104s260Ls66s65s250Bs252HLLLLLLLLLLLLLLLLLLLLLs20Ls103BL''"

definition apn_args :: "byte list \<Rightarrow> arg list" where
  \<comment> \<open>The argument list, around the zero-padded APN.\<close>
  "apn_args apn_string =
    [ArgInt 0, ArgBytes (replicate 257 0), ArgInt 0, ArgBytes (replicate 65 0),
     ArgBytes (replicate 65 0), ArgBytes (replicate 250 0), ArgInt 0,
     ArgBytes (replicate 250 0), ArgInt 0, ArgInt 0, ArgInt 0, ArgInt 0, ArgInt 0, ArgInt 0,
     ArgInt 0, ArgInt 0, ArgInt 0, ArgInt 0, ArgInt 0, ArgInt 0, ArgInt 0, ArgInt 0, ArgInt 0,
     ArgInt 0, ArgInt 0, ArgInt 0, ArgInt 0, ArgInt 0, ArgInt 0, ArgInt 0,
     ArgBytes (replicate 20 0), ArgInt 0, ArgBytes (replicate 101 0),
     ArgBytes (replicate 257 0), ArgInt 0, ArgBytes (replicate 65 0),
     ArgBytes (replicate 65 0), ArgBytes (replicate 250 0), ArgInt 0,
     ArgBytes (replicate 250 0), ArgInt 0, ArgInt 0, ArgInt 0, ArgInt 0, ArgInt 0, ArgInt 0,
     ArgInt 0, ArgInt 0, ArgInt 0, ArgInt 0, ArgInt 0, ArgInt 0, ArgInt 0, ArgInt 0, ArgInt 0,
     ArgInt 0, ArgInt 0, ArgInt 0, ArgInt 0, ArgInt 0, ArgInt 0, ArgInt 0,
     ArgBytes (replicate 20 0), ArgInt 0, ArgBytes (replicate 101 0),
     ArgBytes (replicate 257 0), ArgInt 0, ArgBytes (replicate 65 0),
     ArgBytes (replicate 65 0), ArgBytes (replicate 250 0), ArgInt 0,
     ArgBytes (replicate 250 0), ArgInt 0, ArgInt 0, ArgInt 0, ArgInt 0, ArgInt 0, ArgInt 1,
     ArgInt 0, ArgInt 0, ArgInt 0, ArgInt 0, ArgInt 0, ArgInt 0, ArgInt 0, ArgInt 1, ArgInt 0,
     ArgInt 0, ArgInt 1028, ArgInt 1, ArgInt 0, ArgInt 1, ArgInt 0, ArgInt 0,
     ArgBytes (replicate 20 0), ArgInt 3, ArgBytes apn_string, ArgBytes (replicate 257 0),
     ArgInt 0, ArgBytes (replicate 65 0), ArgBytes (replicate 65 0),
     ArgBytes (replicate 250 0), ArgInt 0, ArgBytes (replicate 250 0), ArgInt 0, ArgInt 0,
     ArgInt 0, ArgInt 0, ArgInt 0, ArgInt 1, ArgInt 0, ArgInt 0, ArgInt 0, ArgInt 0, ArgInt 0,
     ArgInt 0, ArgInt 0, ArgInt 1, ArgInt 0, ArgInt 0, ArgInt 1028, ArgInt 1, ArgInt 0,
     ArgInt 1, ArgInt 0, ArgInt 0, ArgBytes (replicate 20 0), ArgInt 3, ArgBytes apn_string,
     ArgInt 3, ArgInt 0]"

definition attach_config :: "string \<Rightarrow> (codec_error, byte list) res" where
  "attach_config apn =
     (let apn_bytes = str_bytes apn in
      if length apn_bytes > APN_MAX_LEN
      then Inl (Err (StringOverflow (length apn_bytes) APN_MAX_LEN))
      else let apn_string = apn_bytes @ replicate (APN_MAX_LEN - length apn_bytes) 0 in
        pack FORMAT (apn_args apn_string))"

section \<open>The layout of the request\<close>

definition apn_specs :: "spec list" where
  "apn_specs =
    [B8, ByteStr 260, L32, ByteStr 66, ByteStr 65, ByteStr 250, B8, ByteStr 252, H16, L32, L32,
     L32, L32, L32, L32, L32, L32, L32, L32, L32, L32, L32, L32, L32, L32, L32, L32, L32, L32,
     L32, ByteStr 20, L32, ByteStr 104, ByteStr 260, L32, ByteStr 66, ByteStr 65, ByteStr 250,
     B8, ByteStr 252, H16, L32, L32, L32, L32, L32, L32, L32, L32, L32, L32, L32, L32, L32,
     L32, L32, L32, L32, L32, L32, L32, L32, ByteStr 20, L32, ByteStr 104, ByteStr 260, L32,
     ByteStr 66, ByteStr 65, ByteStr 250, B8, ByteStr 252, H16, L32, L32, L32, L32, L32, L32,
     L32, L32, L32, L32, L32, L32, L32, L32, L32, L32, L32, L32, L32, L32, L32, ByteStr 20,
     L32, ByteStr 104, ByteStr 260, L32, ByteStr 66, ByteStr 65, ByteStr 250, B8, ByteStr 252,
     H16, L32, L32, L32, L32, L32, L32, L32, L32, L32, L32, L32, L32, L32, L32, L32, L32, L32,
     L32, L32, L32, L32, ByteStr 20, L32, ByteStr 103, B8, L32]"

lemma render_apn_specs: "render apn_specs = FORMAT"
  by (simp add: apn_specs_def FORMAT_def dec_string_eval)

lemma apn_specs_ok: "\<forall>sp \<in> set apn_specs. spec_ok sp"
  by (simp add: apn_specs_def elem_width_def)

lemma apn_args_ok: "length s = APN_MAX_LEN \<Longrightarrow> list_all2 arg_ok apn_specs (apn_args s)"
  by (simp add: apn_specs_def apn_args_def APN_MAX_LEN_def fits_def)

definition padded_apn :: "string \<Rightarrow> byte list" where
  "padded_apn apn = str_bytes apn @ replicate (APN_MAX_LEN - length apn) 0"

lemma length_padded_apn [simp]: "length apn \<le> APN_MAX_LEN \<Longrightarrow> length (padded_apn apn) = APN_MAX_LEN"
  by (simp add: padded_apn_def)

lemma length_int_bytes [simp]: "w = 1 \<or> w = 2 \<or> w = 4 \<Longrightarrow> length (int_bytes w v) = 2 + w"
  by (auto simp: int_bytes_def)

lemma length_length_field_eval:
  "n < 128 \<Longrightarrow> length (length_field n) = 1"
  "128 \<le> n \<Longrightarrow> n < 256 \<Longrightarrow> length (length_field n) = 2"
  "256 \<le> n \<Longrightarrow> n < 65536 \<Longrightarrow> length (length_field n) = 3"
  by (simp_all add: length_field_def Let_def le_digits_one le_digits.simps [of n])

lemma length_string_bytes_1 [simp]:
  "length v \<le> cap \<Longrightarrow>
   length (string_bytes (Suc 0) cap v) = 13 + length (length_field (length v)) + cap"
  using length_string_bytes [of v cap 1] by simp

lemma length_apn_layout:
  "length s = APN_MAX_LEN \<Longrightarrow> length (layout apn_specs (apn_args s)) = 5067"
  by (simp add: apn_specs_def apn_args_def APN_MAX_LEN_def length_length_field_eval)

lemma apn_sendable: "length s = APN_MAX_LEN \<Longrightarrow> sendable apn_specs (apn_args s)"
  using apn_args_ok [of s] apn_specs_ok length_apn_layout [of s] by (simp add: sendable_def)

lemma readable_257: "readable 257"
  by (simp add: readable_two_bytes)

lemma apn_readable: "length s = APN_MAX_LEN \<Longrightarrow> all_readable apn_specs (apn_args s)"
  by (simp add: all_readable_def apn_specs_def apn_args_def APN_MAX_LEN_def readable_byte
      readable_257)

lemma attach_config_layout:
  assumes "length apn \<le> APN_MAX_LEN"
  shows "attach_config apn = Inr (layout apn_specs (apn_args (padded_apn apn)))"
  using assms pack_render [of apn_specs "apn_args (padded_apn apn)"]
    apn_sendable [of "padded_apn apn"]
  by (simp add: attach_config_def sendable_def render_apn_specs padded_apn_def Let_def)

section \<open>Properties\<close>

text \<open>C33: The attach request configuration: an APN of at most 101 bytes gives a request of exactly 5067
  bytes, the reference layout around the zero-padded APN, and every field of it decodes back; a
  longer APN is refused with its length before anything is encoded.\<close>

theorem attach_config_verdict:
  "attach_config apn =
     (if length apn \<le> 101 then Inr (layout apn_specs (apn_args (padded_apn apn)))
      else Inl (Err (StringOverflow (length apn) 101))) \<and>
   (case attach_config apn of
      Inl _ \<Rightarrow> True
    | Inr bs \<Rightarrow> length bs = 5067 \<and>
        decode_values bs = Inr (map2 spec_view apn_specs (apn_args (padded_apn apn))))"
proof (cases "length apn \<le> APN_MAX_LEN")
  case True
  then show ?thesis
    using attach_config_layout [OF True] length_apn_layout [of "padded_apn apn"]
      decode_values_layout [OF apn_sendable apn_readable, of "padded_apn apn"]
    by (simp add: APN_MAX_LEN_def)
next
  case False
  then show ?thesis by (simp add: attach_config_def APN_MAX_LEN_def)
qed

end
