(* ===== verification/Modem.thy ===== *)
theory Modem
  imports Exchange Apn
begin

text \<open>
  \<open>src/src/modem.rs\<close>: the bring-up operations, one definition per function, and what each of them
  sends, requires of the answers and returns.  The SHA-256 implementation of the \<open>sha2\<close> crate is
  the parameter \<open>sha256\<close>.  Log output is not modelled.

  Each request takes one answer to a write, so the probing and polling loops are bounded by the
  answers the environment still holds; the loops that only receive are bounded by \<open>pending\<close>.
\<close>

section \<open>Commands and constants\<close>

definition UTA_MS_SIM_OPEN_REQ :: call_id_t where "UTA_MS_SIM_OPEN_REQ = CallId 0x001"
definition UTA_MS_SMS_INIT :: call_id_t where "UTA_MS_SMS_INIT = CallId 0x030"
definition UTA_MS_CBS_INIT :: call_id_t where "UTA_MS_CBS_INIT = CallId 0x025"
definition UTA_MS_NET_OPEN :: call_id_t where "UTA_MS_NET_OPEN = CallId 0x053"
definition UTA_MS_CALL_CS_INIT :: call_id_t where "UTA_MS_CALL_CS_INIT = CallId 0x024"
definition UTA_MS_CALL_PS_INITIALIZE :: call_id_t where "UTA_MS_CALL_PS_INITIALIZE = CallId 0x03a"
definition UTA_MS_SS_INIT :: call_id_t where "UTA_MS_SS_INIT = CallId 0x026"
definition UTA_MS_CALL_PS_ATTACH_APN_CONFIG_REQ :: call_id_t where
  "UTA_MS_CALL_PS_ATTACH_APN_CONFIG_REQ = CallId 0x1af"
definition UTA_MS_NET_ATTACH_REQ :: call_id_t where "UTA_MS_NET_ATTACH_REQ = CallId 0x05c"
definition UTA_MS_CALL_PS_GET_NEG_IP_ADDR_REQ :: call_id_t where
  "UTA_MS_CALL_PS_GET_NEG_IP_ADDR_REQ = CallId 0x049"
definition UTA_MS_CALL_PS_GET_NEGOTIATED_DNS_REQ :: call_id_t where
  "UTA_MS_CALL_PS_GET_NEGOTIATED_DNS_REQ = CallId 0x047"
definition UTA_MS_CALL_PS_CONNECT_REQ :: call_id_t where
  "UTA_MS_CALL_PS_CONNECT_REQ = CallId 0x051"
definition UTA_RPC_PS_CONNECT_TO_DATACHANNEL_REQ :: call_id_t where
  "UTA_RPC_PS_CONNECT_TO_DATACHANNEL_REQ = CallId 0x07e"
definition UTA_RPC_PS_CONNECT_SETUP_REQ :: call_id_t where
  "UTA_RPC_PS_CONNECT_SETUP_REQ = CallId 0x07d"
definition UTA_MODE_SET_REQ :: call_id_t where "UTA_MODE_SET_REQ = CallId 0x12f"
definition UTA_SYS_GET_INFO :: call_id_t where "UTA_SYS_GET_INFO = CallId 0x07c"
definition CSI_FCC_LOCK_QUERY_REQ :: call_id_t where "CSI_FCC_LOCK_QUERY_REQ = CallId 0x18e"
definition CSI_FCC_LOCK_GEN_CHALLENGE_REQ :: call_id_t where
  "CSI_FCC_LOCK_GEN_CHALLENGE_REQ = CallId 0x190"
definition CSI_FCC_LOCK_VER_CHALLENGE_REQ :: call_id_t where
  "CSI_FCC_LOCK_VER_CHALLENGE_REQ = CallId 0x192"

lemmas command_defs =
  UTA_MS_SIM_OPEN_REQ_def UTA_MS_SMS_INIT_def UTA_MS_CBS_INIT_def UTA_MS_NET_OPEN_def
  UTA_MS_CALL_CS_INIT_def UTA_MS_CALL_PS_INITIALIZE_def UTA_MS_SS_INIT_def
  UTA_MS_CALL_PS_ATTACH_APN_CONFIG_REQ_def UTA_MS_NET_ATTACH_REQ_def
  UTA_MS_CALL_PS_GET_NEG_IP_ADDR_REQ_def UTA_MS_CALL_PS_GET_NEGOTIATED_DNS_REQ_def
  UTA_MS_CALL_PS_CONNECT_REQ_def UTA_RPC_PS_CONNECT_TO_DATACHANNEL_REQ_def
  UTA_RPC_PS_CONNECT_SETUP_REQ_def UTA_MODE_SET_REQ_def UTA_SYS_GET_INFO_def
  CSI_FCC_LOCK_QUERY_REQ_def CSI_FCC_LOCK_GEN_CHALLENGE_REQ_def CSI_FCC_LOCK_VER_CHALLENGE_REQ_def

definition FCC_UNLOCK_KEY :: "byte list" where
  "FCC_UNLOCK_KEY = [0x3d, 0xf8, 0xc7, 0x19]"

definition READY_TIMEOUT :: nat where
  "READY_TIMEOUT = nanos 120"

definition READY_PROBE_TIMEOUT :: nat where
  "READY_PROBE_TIMEOUT = nanos 3"

definition int_at :: "codec_value list \<Rightarrow> nat \<Rightarrow> (error, u32) res" where
  "int_at values index =
     ok_or (Protocol (''expected an integer at position '' @ dec_string index))
       (Option.bind (slice_get values index) as_int)"

text \<open>Every request takes one answer to a write.\<close>

lemma execute_writes:
  assumes "execute_with_timeout cmd payload m timeout s = (x, t)"
  shows "os_writes t = tl (os_writes s)" and "x \<noteq> Inl Blocked \<Longrightarrow> os_writes s \<noteq> []"
proof -
  have "os_writes t = tl (os_writes s) \<and> (os_writes s = [] \<longrightarrow> x = Inl Blocked)"
    using assms unfolding execute_eq
    by (elim seq_elim)
      (auto simp: write_all_def Let_def split: list.splits option.splits
        dest!: response.keeps_writes)
  then show "os_writes t = tl (os_writes s)" "x \<noteq> Inl Blocked \<Longrightarrow> os_writes s \<noteq> []" by blast+
qed

lemma execute_shrinks_writes:
  "execute_with_timeout cmd payload m timeout s = (x, t) \<Longrightarrow> x \<noteq> Inl Blocked \<Longrightarrow>
   length (os_writes t) < length (os_writes s)"
  using execute_writes [of cmd payload m timeout s x t] by (cases "os_writes s") auto

lemma port_op_reopen: "port_op reopen"
  by unfold_locales
    (auto simp: reopen_def evolves_def pending_def open_port_def Let_def elim!: seq_elim
      split: list.splits option.splits)

section \<open>Waiting for the firmware\<close>

function wait_ready_loop :: "nat \<Rightarrow> sys \<Rightarrow> (error, unit) res \<times> sys" where
  "wait_ready_loop deadline s =
     (case execute_with_timeout CSI_FCC_LOCK_QUERY_REQ (pack_u32 0) Async READY_PROBE_TIMEOUT s of
        (Inr _, s) \<Rightarrow> (Inr (), s)
      | (Inl e, s) \<Rightarrow>
          if e = Err Timeout then
            seq instant_now (\<lambda>n s.
            if n \<ge> deadline then (Inl (Err Timeout), s)
            else seq reopen (\<lambda>_. wait_ready_loop deadline) s) s
          else (Inl e, s))"
  by pat_completeness auto
termination
proof (relation "measure (\<lambda>(deadline, s). length (os_writes s))", goal_cases)
  case (2 deadline s p x v e w u z)
  then have "length (os_writes x) < length (os_writes s)"
    using execute_shrinks_writes [of CSI_FCC_LOCK_QUERY_REQ "pack_u32 0" Async READY_PROBE_TIMEOUT s p x]
    by simp
  moreover have "length (os_writes w) \<le> length (os_writes x)"
    using 2(4) by (auto simp: instant_now_def)
  moreover have "length (os_writes z) \<le> length (os_writes w)"
    using port_op.evolves [OF port_op_reopen 2(6)] by (simp add: evolves_def)
  ultimately show ?case by simp
qed simp

declare wait_ready_loop.simps [simp del]

definition wait_ready :: "unit port" where
  "wait_ready =
     seq instant_now (\<lambda>n.
     seq (lift_res (instant_add n READY_TIMEOUT)) (\<lambda>deadline.
     wait_ready_loop deadline))"

section \<open>Initialisation and firmware version\<close>

primrec run_commands :: "call_id_t list \<Rightarrow> unit port" where
  \<comment> \<open>The \<open>for command in commands\<close> loop.\<close>
  "run_commands [] = ret ()"
| "run_commands (c # cs) = seq (execute c (pack_u32 0) Sync) (\<lambda>_. run_commands cs)"

definition init_commands :: "call_id_t list" where
  "init_commands =
     [UTA_MS_SMS_INIT, UTA_MS_CBS_INIT, UTA_MS_NET_OPEN, UTA_MS_CALL_CS_INIT,
      UTA_MS_CALL_PS_INITIALIZE, UTA_MS_SS_INIT, UTA_MS_SIM_OPEN_REQ]"

definition initialize :: "unit port" where
  "initialize = run_commands init_commands"

definition firmware_version :: "string port" where
  "firmware_version =
     seq (lift_res (sys_get_info 0)) (\<lambda>request.
     seq (execute UTA_SYS_GET_INFO request Sync) (\<lambda>response.
     seq (lift_res (from_codec (parse_sys_info (msg_body response)))) (\<lambda>bytes.
     ret (from_utf8_lossy bytes))))"

section \<open>The FCC lock\<close>

definition digest_answer :: "byte list \<Rightarrow> (error, u32) res" where
  \<comment> \<open>\<open>u32::from_le_bytes(digest[..4].try_into().unwrap())\<close>\<close>
  "digest_answer digest = (if length digest < 4 then Inl Panic else Inr (from_le32 (take 4 digest)))"

definition fcc_challenge :: "(byte list \<Rightarrow> byte list) \<Rightarrow> unit port" where
  \<comment> \<open>The rest of \<open>fcc_unlock\<close> once the modem has said that it is locked.\<close>
  "fcc_challenge sha256 =
     seq (execute CSI_FCC_LOCK_GEN_CHALLENGE_REQ (pack_u32 0) Async) (\<lambda>response.
     seq (lift_res (from_codec (unpack ''nn'' (msg_body response)))) (\<lambda>values.
     seq (lift_res (int_at values 1)) (\<lambda>challenge.
     seq (lift_res (digest_answer (sha256 (to_le32 challenge @ FCC_UNLOCK_KEY)))) (\<lambda>answer.
     seq (execute CSI_FCC_LOCK_VER_CHALLENGE_REQ (pack_u32 answer) Async) (\<lambda>response.
     seq (lift_res (from_codec (unpack ''n'' (msg_body response)))) (\<lambda>values.
     seq (lift_res (int_at values 0)) (\<lambda>v.
     if v \<noteq> 1 then raise FccUnlock else ret ())))))))"

definition fcc_unlock :: "(byte list \<Rightarrow> byte list) \<Rightarrow> unit port" where
  "fcc_unlock sha256 =
     seq (execute CSI_FCC_LOCK_QUERY_REQ (pack_u32 0) Async) (\<lambda>response.
     seq (lift_res (from_codec (unpack ''nnn'' (msg_body response)))) (\<lambda>values.
     seq (lift_res (int_at values 1)) (\<lambda>state.
     seq (lift_res (int_at values 2)) (\<lambda>lock_mode.
     if lock_mode = 0 \<or> state \<noteq> 0 then ret () else fcc_challenge sha256))))"

section \<open>The operating mode\<close>

definition MODE_TID :: u32 where "MODE_TID = 15"

function set_mode_loop :: "u32 \<Rightarrow> sys \<Rightarrow> (error, unit) res \<times> sys" where
  "set_mode_loop m s =
     seq recv (\<lambda>message s.
       if msg_code message = UTA_MODE_SET_RSP_CB then
         seq (lift_res (int_at (msg_content message) 0)) (\<lambda>v.
           if v \<noteq> m
           then raise (Protocol ''UtaModeSet could not set the mode (FCC lock enabled?)'')
           else ret ()) s
       else set_mode_loop m s) s"
  by pat_completeness auto
termination
  by (relation "measure (\<lambda>(m, s). pending s)") auto

declare set_mode_loop.simps [simp del]

definition set_mode :: "u32 \<Rightarrow> unit port" where
  "set_mode m =
     seq (lift_res (from_codec (pack ''LLL'' [ArgInt 0, ArgInt MODE_TID, ArgInt m]))) (\<lambda>body.
     seq (execute UTA_MODE_SET_REQ body Sync) (\<lambda>response.
     seq (lift_res (int_at (msg_content response) 0)) (\<lambda>v.
     if v \<noteq> 0 then raise (Protocol ''UtaModeSet was rejected by the firmware'')
     else set_mode_loop m)))"

section \<open>Attaching to the network\<close>

definition attach_status :: "u32 port" where
  "attach_status =
     seq (lift_res net_attach) (\<lambda>request.
     seq (execute UTA_MS_NET_ATTACH_REQ request Async) (\<lambda>response.
     seq (lift_res (from_codec (unpack ''nn'' (msg_body response)))) (\<lambda>values.
     lift_res (int_at values 1))))"

function await_attach :: "sys \<Rightarrow> (error, unit) res \<times> sys" where
  \<comment> \<open>\<open>while !rpc.attach_allowed() { rpc.recv()?; }\<close>\<close>
  "await_attach s =
     (if attach_allowed s then (Inr (), s) else seq recv (\<lambda>_ s. await_attach s) s)"
  by pat_completeness auto
termination
  by (relation "measure pending") auto

declare await_attach.simps [simp del]

definition attach_retry :: "u32 \<Rightarrow> u32 port" where
  \<comment> \<open>The \<open>if status == u32::MAX\<close> block of \<open>attach\<close>.\<close>
  "attach_retry status =
     (if status = 0xffffffff then seq await_attach (\<lambda>_. attach_status) else ret status)"

definition attach :: "string \<Rightarrow> bool port" where
  "attach apn =
     seq (lift_res (from_codec (attach_config apn))) (\<lambda>config.
     seq (execute UTA_MS_CALL_PS_ATTACH_APN_CONFIG_REQ config Async) (\<lambda>_.
     seq attach_status (\<lambda>status.
     seq (attach_retry status) (\<lambda>status.
     ret (status \<noteq> 0xffffffff)))))"

section \<open>The address and the data channel\<close>

fun find_first :: "('a \<Rightarrow> bool) \<Rightarrow> 'a list \<Rightarrow> 'a option" where
  "find_first P [] = None"
| "find_first P (x # xs) = (if P x then Some x else find_first P xs)"

definition query_ip :: "(ipv4 \<times> dns_servers) option port" where
  "query_ip =
     seq (lift_res get_neg_ip) (\<lambda>request.
     seq (execute UTA_MS_CALL_PS_GET_NEG_IP_ADDR_REQ request Async) (\<lambda>response.
     seq (lift_res (from_codec (parse_neg_ip (msg_body response)))) (\<lambda>addresses.
     seq (lift_res get_neg_dns) (\<lambda>request.
     seq (execute UTA_MS_CALL_PS_GET_NEGOTIATED_DNS_REQ request Async) (\<lambda>response.
     seq (lift_res (from_codec (parse_dns (msg_body response)))) (\<lambda>dns.
     ret (map_option (\<lambda>address. (address, dns))
       (find_first (\<lambda>address. address \<noteq> UNSPECIFIED) (rev addresses)))))))))"

lemma port_op_query_ip: "port_op query_ip"
  unfolding query_ip_def by (intro port_op_intros port_op_execute)

lemma query_ip_shrinks_writes:
  assumes "query_ip s = (Inr x, t)"
  shows "length (os_writes t) < length (os_writes s)"
proof -
  from assms obtain p u y where run: "execute UTA_MS_CALL_PS_GET_NEG_IP_ADDR_REQ p Async s = (Inr y, u)"
    and rest: "\<exists>q z. execute UTA_MS_CALL_PS_GET_NEGOTIATED_DNS_REQ q Async u = (Inr z, t)"
    by (auto simp: query_ip_def seq_eq_Inr) blast
  from run have "length (os_writes u) < length (os_writes s)"
    unfolding execute_def by (rule execute_shrinks_writes) simp
  moreover from rest have "length (os_writes t) \<le> length (os_writes u)"
    using port_op.evolves [OF port_op_execute] by (fastforce simp: evolves_def)
  ultimately show ?thesis by simp
qed

function wait_for_ip_loop ::
    "nat \<Rightarrow> nat \<Rightarrow> sys \<Rightarrow> (error, (ipv4 \<times> dns_servers) option) res \<times> sys" where
  "wait_for_ip_loop deadline interval s =
     seq query_ip (\<lambda>answer s.
       case answer of
         Some found \<Rightarrow> (Inr (Some found), s)
       | None \<Rightarrow>
           seq instant_now (\<lambda>n s.
           if n \<ge> deadline then (Inr None, s)
           else seq (sleep_for interval) (\<lambda>_ s. wait_for_ip_loop deadline interval s) s) s) s"
  by pat_completeness auto
termination
proof (relation "measure (\<lambda>(deadline, interval, s). length (os_writes s))", goal_cases)
  case (2 deadline interval s a u n v x w)
  then show ?case by (auto dest!: query_ip_shrinks_writes simp: instant_now_def sleep_for_def)
qed simp

declare wait_for_ip_loop.simps [simp del]

definition wait_for_ip :: "nat \<Rightarrow> nat \<Rightarrow> (ipv4 \<times> dns_servers) option port" where
  "wait_for_ip timeout interval =
     seq instant_now (\<lambda>n.
     seq (lift_res (instant_add n timeout)) (\<lambda>deadline.
     wait_for_ip_loop deadline interval))"

definition open_data_channel :: "string \<Rightarrow> unit port" where
  "open_data_channel path =
     seq (lift_res ps_connect) (\<lambda>request.
     seq (execute UTA_MS_CALL_PS_CONNECT_REQ request Async) (\<lambda>connect.
     seq (lift_res (from_codec (connect_to_datachannel path))) (\<lambda>request.
     seq (execute UTA_RPC_PS_CONNECT_TO_DATACHANNEL_REQ request Sync) (\<lambda>datachannel.
     if length (msg_body connect) < 6
     then raise (Protocol ''packet-switched connect response is too short'') else
     let setup = take (length (msg_body connect) - 6) (msg_body connect)
                   @ msg_body datachannel @ asn_int 0 in
     seq (execute UTA_RPC_PS_CONNECT_SETUP_REQ setup Sync) (\<lambda>_. ret ())))))"
end
