(* ===== verification/ModemFacts.thy ===== *)
theory ModemFacts
  imports Modem
begin

text \<open>
  What the operations of \<open>src/src/modem.rs\<close> guarantee: the packets each of them sends, what the
  answers must have said when it succeeds, when it gives up, and (locale \<open>calm_op\<close>) that none of
  them panics.
\<close>

section \<open>What is sent\<close>

lemma sent_write_all: "write_all bs s = (x, t) \<Longrightarrow> sent t = sent s @ [bs]"
  by (auto simp: write_all_def sent_log_call Let_def split: list.splits option.splits)

lemma execute_with_timeout_sent:
  assumes "execute_with_timeout cmd payload m timeout s = (x, t)"
  shows "sent t = sent s @ [packet cmd payload m]"
  using assms unfolding execute_eq
  by (elim seq_elim) (auto dest!: sent_write_all response.sends_nothing)

lemma execute_sent: "execute cmd payload m s = (x, t) \<Longrightarrow> sent t = sent s @ [packet cmd payload m]"
  unfolding execute_def by (rule execute_with_timeout_sent)

lemma execute_port_state:
  assumes "execute_with_timeout cmd payload m timeout s = (x, t)"
  shows "os_opens t = os_opens s" "os_clock t = os_clock s" "rpc_path t = rpc_path s"
proof -
  have "os_opens t = os_opens s \<and> os_clock t = os_clock s \<and> rpc_path t = rpc_path s"
    using assms unfolding execute_eq
    by (elim seq_elim)
      (auto simp: write_all_def Let_def listens_def evolves_def split: list.splits option.splits
        dest!: response.listens)
  then show "os_opens t = os_opens s" "os_clock t = os_clock s" "rpc_path t = rpc_path s"
    by simp_all
qed

text \<open>Reading an integer after \<open>unpack\<close> cannot fail.\<close>

lemma int_at_unpack:
  assumes "unpack fmt body = Inr vs" and "i < length fmt" and "fmt ! i = CHR ''n''"
  obtains v where "int_at vs i = Inr v" "vs ! i = ValInt v"
  using unpack_kind_at [OF assms(1,2)] assms(3) by (auto simp: int_at_def slice_get_def)

section \<open>Readiness probing\<close>

abbreviation probe :: "byte list" where
  "probe \<equiv> packet CSI_FCC_LOCK_QUERY_REQ (pack_u32 0) Async"

lemma reopen_ok:
  assumes "reopen s = (Inr u, t)"
  shows "os_opens s = None # os_opens t" "sent t = sent s" "os_clock t = os_clock s"
    "inbuf t = []" "\<not> attach_allowed t"
  using assms
  by (auto simp: reopen_def seq_eq_Inr open_port_def sent_log_call Let_def
      split: list.splits option.splits)

lemma reopen_fail:
  assumes "reopen s = (Inl e, t)"
  shows "e \<noteq> Err Timeout" "sent t = sent s" "os_clock t = os_clock s"
  using assms
  by (auto simp: reopen_def seq_eq_Inl open_port_def sent_log_call Let_def
      split: list.splits option.splits)

lemma wait_ready_loop_trace:
  "wait_ready_loop deadline s = (x, t) \<Longrightarrow>
   \<exists>k. sent t = sent s @ replicate (Suc k) probe \<and> os_clock t = os_clock s \<and>
     (x = Inr () \<or> x = Inl (Err Timeout) \<longrightarrow> os_opens s = replicate k None @ os_opens t) \<and>
     (x = Inl (Err Timeout) \<longrightarrow> (\<exists>i. deadline \<le> os_clock s i))"
proof (induction deadline s arbitrary: x t rule: wait_ready_loop.induct)
  case (1 deadline s)
  obtain y u where run: "execute_with_timeout CSI_FCC_LOCK_QUERY_REQ (pack_u32 0) Async
      READY_PROBE_TIMEOUT s = (y, u)"
    by force
  note sent = execute_with_timeout_sent [OF run] and state = execute_port_state [OF run]
  define v where "v = u\<lparr>os_ticks := Suc (os_ticks u)\<rparr>"
  have v: "instant_now u = (Inr (os_clock u (os_ticks u)), v)" by (simp add: instant_now_def v_def)
  have v': "sent v = sent u" "os_clock v = os_clock u" "os_opens v = os_opens u"
    by (simp_all add: v_def)
  consider (ok) r where "y = Inr r" "x = Inr ()" "t = u"
    | (fail) e where "y = Inl e" "e \<noteq> Err Timeout" "x = Inl e" "t = u"
    | (expired) "y = Inl (Err Timeout)" "deadline \<le> os_clock u (os_ticks u)"
      "x = Inl (Err Timeout)" "t = v"
    | (closed) e where "reopen v = (Inl e, t)" "x = Inl e"
    | (again) w where "y = Inl (Err Timeout)" "\<not> deadline \<le> os_clock u (os_ticks u)"
      "reopen v = (Inr (), w)" "wait_ready_loop deadline w = (x, t)"
    using "1.prems" run v
    by (subst (asm) wait_ready_loop.simps)
      (auto simp: seq_Inr elim!: seq_elim split: sum.splits if_splits)
  then show ?case
  proof cases
    case again
    obtain k where "sent t = sent w @ replicate (Suc k) probe" "os_clock t = os_clock w"
        "x = Inr () \<or> x = Inl (Err Timeout) \<longrightarrow> os_opens w = replicate k None @ os_opens t"
        "x = Inl (Err Timeout) \<longrightarrow> (\<exists>i. deadline \<le> os_clock w i)"
      using "1.IH" [OF run [symmetric] again(1) refl v again(2,3,4)] by blast
    then show ?thesis
      using reopen_ok [OF again(3)] sent state(1,2) v'
      by (intro exI [of _ "Suc k"]) auto
  next
    case closed
    then show ?thesis
      using reopen_fail [OF closed(1)] sent state v' by (intro exI [of _ 0]) simp
  next
    case expired
    then show ?thesis using sent state v' by (intro exI [of _ 0]) auto
  qed (use sent state v' in \<open>auto intro!: exI [of _ 0]\<close>)
qed

lemma wait_ready_trace:
  assumes "wait_ready s = (x, t)"
  shows "\<exists>k. sent t = sent s @ replicate k probe \<and>
     (x = Inr () \<longrightarrow> 0 < k \<and> os_opens s = replicate (k - 1) None @ os_opens t) \<and>
     (x = Inl (Err Timeout) \<longrightarrow> 0 < k \<and> os_opens s = replicate (k - 1) None @ os_opens t \<and>
        (\<exists>i. os_clock s (os_ticks s) + READY_TIMEOUT \<le> os_clock s i))"
proof (cases "instant_add (os_clock s (os_ticks s)) READY_TIMEOUT :: (error, nat) res")
  case (Inl e)
  with assms have "x = Inl e" "sent t = sent s"
    by (auto simp: wait_ready_def instant_now_def seq_def)
  moreover have "e = Panic" using Inl by (simp add: instant_add_def split: if_splits)
  ultimately show ?thesis by (intro exI [of _ 0]) simp
next
  case (Inr d)
  then have d: "d = os_clock s (os_ticks s) + READY_TIMEOUT"
    by (simp add: instant_add_def split: if_splits)
  let ?s = "s\<lparr>os_ticks := Suc (os_ticks s)\<rparr>"
  have "wait_ready_loop d ?s = (x, t)"
    using assms Inr by (simp add: wait_ready_def instant_now_def seq_def)
  from wait_ready_loop_trace [OF this] obtain k where
    "sent t = sent s @ replicate (Suc k) probe"
    "x = Inr () \<or> x = Inl (Err Timeout) \<longrightarrow> os_opens s = replicate k None @ os_opens t"
    "x = Inl (Err Timeout) \<longrightarrow> (\<exists>i. d \<le> os_clock s i)"
    by auto
  then show ?thesis by (intro exI [of _ "Suc k"]) (auto simp: d)
qed

section \<open>Initialisation\<close>

lemma run_commands_trace:
  "run_commands cs s = (x, t) \<Longrightarrow>
   \<exists>k \<le> length cs. sent t = sent s @ map (\<lambda>c. packet c (pack_u32 0) Sync) (take k cs) \<and>
     (x = Inr () \<longrightarrow> k = length cs)"
proof (induction cs arbitrary: s)
  case (Cons c cs)
  from Cons.prems have "seq (execute c (pack_u32 0) Sync) (\<lambda>_. run_commands cs) s = (x, t)" by simp
  then show ?case
  proof (cases rule: seq_elim)
    case (stop e)
    then show ?thesis by (intro exI [of _ 1]) (simp add: execute_sent)
  next
    case (go r u)
    from Cons.IH [OF go(2)] obtain k where "k \<le> length cs"
      "sent t = sent u @ map (\<lambda>c. packet c (pack_u32 0) Sync) (take k cs)"
      "x = Inr () \<longrightarrow> k = length cs" by blast
    then show ?thesis
      using execute_sent [OF go(1)] by (intro exI [of _ "Suc k"]) simp
  qed
qed simp

section \<open>The FCC lock\<close>

lemma int_at_shape:
  assumes "unpack fmt body = Inr vs" and "int_at vs i = Inr v" and "i < length fmt"
  shows "i < length vs" "vs ! i = ValInt v"
  using unpack_kind_at(1) [OF assms(1,3)] assms(2)
  by (auto simp: int_at_def slice_get_def ok_or_eq_Inr split: if_splits)

lemma fcc_challenge_success:
  assumes "fcc_challenge sha256 s = (Inr (), t)"
  obtains r u challenge a r' where
      "execute CSI_FCC_LOCK_GEN_CHALLENGE_REQ (pack_u32 0) Async s = (Inr r, u)"
      "unpack ''nn'' (msg_body r) = Inr [a, ValInt challenge]"
      "execute CSI_FCC_LOCK_VER_CHALLENGE_REQ
         (pack_u32 (from_le32 (take 4 (sha256 (to_le32 challenge @ FCC_UNLOCK_KEY))))) Async u =
         (Inr r', t)"
      "unpack ''n'' (msg_body r') = Inr [ValInt 1]"
proof -
  from assms obtain r u vs challenge r' vs' where
    c: "execute CSI_FCC_LOCK_GEN_CHALLENGE_REQ (pack_u32 0) Async s = (Inr r, u)"
    "unpack ''nn'' (msg_body r) = Inr vs" "int_at vs 1 = Inr challenge" and
    a: "execute CSI_FCC_LOCK_VER_CHALLENGE_REQ
       (pack_u32 (from_le32 (take 4 (sha256 (to_le32 challenge @ FCC_UNLOCK_KEY))))) Async u =
       (Inr r', t)" "unpack ''n'' (msg_body r') = Inr vs'" "int_at vs' 0 = Inr 1"
    by (auto simp: fcc_challenge_def seq_eq_Inr digest_answer_def split: if_splits)
  obtain x where "unpack ''nn'' (msg_body r) = Inr [x, ValInt challenge]"
    using unpack_shape [OF c(2)] int_at_shape(2) [OF c(2,3)] c(2)
    by (auto simp: list_all2_Cons1)
  moreover have "unpack ''n'' (msg_body r') = Inr [ValInt 1]"
    using unpack_shape [OF a(2)] int_at_shape(2) [OF a(2,3)] a(2)
    by (auto simp: list_all2_Cons1)
  ultimately show thesis using c(1) a(1) by (intro that)
qed

lemma fcc_unlock_success:
  assumes "fcc_unlock sha256 s = (Inr (), t)"
  obtains r u a st lock_mode where
    "execute CSI_FCC_LOCK_QUERY_REQ (pack_u32 0) Async s = (Inr r, u)"
    "unpack ''nnn'' (msg_body r) = Inr [a, ValInt st, ValInt lock_mode]"
    "if lock_mode = 0 \<or> st \<noteq> 0 then t = u else fcc_challenge sha256 u = (Inr (), t)"
proof -
  from assms obtain r u vs st lock_mode where
    q: "execute CSI_FCC_LOCK_QUERY_REQ (pack_u32 0) Async s = (Inr r, u)"
      "unpack ''nnn'' (msg_body r) = Inr vs" "int_at vs 1 = Inr st" "int_at vs 2 = Inr lock_mode"
    and rest: "if lock_mode = 0 \<or> st \<noteq> 0 then t = u else fcc_challenge sha256 u = (Inr (), t)"
    by (auto simp: fcc_unlock_def seq_eq_Inr split: if_splits)
  obtain x where "unpack ''nnn'' (msg_body r) = Inr [x, ValInt st, ValInt lock_mode]"
    using unpack_shape [OF q(2)] int_at_shape(2) [OF q(2,3)] int_at_shape(2) [OF q(2,4)] q(2)
    by (auto simp: list_all2_Cons1)
  with q(1) rest show thesis by (intro that)
qed

section \<open>The operating mode\<close>

lemma mode_request:
  "pack ''LLL'' [ArgInt 0, ArgInt MODE_TID, ArgInt m] = Inr (asn_int 0 @ asn_int MODE_TID @ asn_int m)"
  using pack_render [of "[L32, L32, L32]" "[ArgInt 0, ArgInt MODE_TID, ArgInt m]"]
  by (simp add: asn_int_int_bytes elem_width_def)

definition mode_verdict :: "u32 \<Rightarrow> message \<Rightarrow> unit port" where
  "mode_verdict m message =
     seq (lift_res (int_at (msg_content message) 0)) (\<lambda>v.
       if v \<noteq> m then raise (Protocol ''UtaModeSet could not set the mode (FCC lock enabled?)'')
       else ret ())"

interpretation mode_wait: receive_until recv "set_mode_loop m"
    "\<lambda>msg. msg_code msg = UTA_MODE_SET_RSP_CB" "mode_verdict m" for m
proof (intro receive_until.intro receive_until_axioms.intro)
  show "receiver recv" unfolding recv_def by (rule recv_op.receiver_axioms)
  show "set_mode_loop m s = seq recv (\<lambda>msg u. if msg_code msg = UTA_MODE_SET_RSP_CB
      then mode_verdict m msg u else set_mode_loop m u) s" for s
    by (subst set_mode_loop.simps) (auto simp: mode_verdict_def intro!: seq_cong)
qed

lemma mode_verdict_Inr:
  "mode_verdict m msg s = (Inr u, t) \<longleftrightarrow> int_at (msg_content msg) 0 = Inr m \<and> t = s"
  by (auto simp: mode_verdict_def seq_eq_Inr split: if_splits)

lemma int_at_Inr: "int_at vs i = Inr v \<longleftrightarrow> slice_get vs i = Some (ValInt v)"
  by (auto simp: int_at_def ok_or_eq_Inr bind_eq_Some_conv)

lemma set_mode_success:
  assumes "set_mode m s = (Inr (), t)"
  obtains r u raws ms raw ind where
    "execute UTA_MODE_SET_REQ (asn_int 0 @ asn_int MODE_TID @ asn_int m) Sync s = (Inr r, u)"
    "slice_get (msg_content r) 0 = Some (ValInt 0)"
    "messages raws ms" "\<forall>x \<in> set ms. msg_code x \<noteq> UTA_MODE_SET_RSP_CB"
    "is_frame raw" "parse raw = Inr ind" "msg_code ind = UTA_MODE_SET_RSP_CB"
    "slice_get (msg_content ind) 0 = Some (ValInt m)"
    "stream u = concat raws @ raw @ stream t" "sent t = sent u"
proof -
  from assms obtain r u where
    run: "execute UTA_MODE_SET_REQ (asn_int 0 @ asn_int MODE_TID @ asn_int m) Sync s = (Inr r, u)"
      "int_at (msg_content r) 0 = Inr 0"
    and loop: "set_mode_loop m u = (Inr (), t)"
    by (auto simp: set_mode_def mode_request seq_eq_Inr split: if_splits)
  from mode_wait.loop_outcome [of u m] loop obtain ms v ind where
    rcv: "receives recv u ms v" "\<forall>x \<in> set ms. msg_code x \<noteq> UTA_MODE_SET_RSP_CB"
      "recv v = (Inr ind, t)" "msg_code ind = UTA_MODE_SET_RSP_CB"
      "int_at (msg_content ind) 0 = Inr m"
    by (auto simp: mode_verdict_Inr)
  obtain raws where raws: "messages raws ms" "stream u = concat raws @ stream v" "listens u v"
    using receives_messages rcv(1) unfolding recv_def by blast
  obtain raw where raw: "is_frame raw" "parse raw = Inr ind" "stream v = raw @ stream t"
    using rcv(3) unfolding recv_def by (rule recv_inner_message)
  have "sent t = sent u"
    using raws(3) listener.listens [OF listener_recv rcv(3)] by (simp add: listens_def)
  with run rcv raws raw show thesis
    by (intro that [of r u raws ms raw ind]) (simp_all add: int_at_Inr)
qed

section \<open>Attaching\<close>

lemma attach_status_success:
  assumes "attach_status s = (Inr st, t)"
  obtains r a where "execute UTA_MS_NET_ATTACH_REQ attach_payload Async s = (Inr r, t)"
    "unpack ''nn'' (msg_body r) = Inr [a, ValInt st]"
proof -
  from assms obtain r vs where r: "execute UTA_MS_NET_ATTACH_REQ attach_payload Async s = (Inr r, t)"
      "unpack ''nn'' (msg_body r) = Inr vs" "int_at vs 1 = Inr st"
    by (auto simp: attach_status_def builder_payloads seq_eq_Inr)
  then obtain x where "unpack ''nn'' (msg_body r) = Inr [x, ValInt st]"
    using unpack_shape [OF r(2)] int_at_shape(2) [OF r(2,3)] by (auto simp: list_all2_Cons1)
  with r(1) show thesis by (intro that)
qed

lemma await_attach_listens: "await_attach s = (x, t) \<Longrightarrow> listens s t"
proof (induction s arbitrary: x t rule: await_attach.induct)
  case (1 s)
  from "1.prems" show ?case
    by (subst (asm) await_attach.simps)
      (auto elim!: seq_elim split: if_splits
        intro: listens_trans "1.IH" listener.listens [OF listener_recv])
qed

lemma recv_flag: "recv s = (Inr m, u) \<Longrightarrow> attach_allowed u = attach_flag (attach_allowed s) m"
  unfolding recv_def by (erule recv_inner_message)

text \<open>Waiting for the permission stops at the first state that has it.\<close>

lemma await_attach_receives:
  "await_attach s = (Inr u, t) \<Longrightarrow>
   attach_allowed t \<and> (\<exists>ms. receives recv s ms t \<and>
     (\<forall>i < length ms. \<not> foldl attach_flag (attach_allowed s) (take i ms)))"
proof (induction s arbitrary: t rule: await_attach.induct)
  case (1 s)
  show ?case
  proof (cases "attach_allowed s")
    case True
    with "1.prems" have "t = s" by (subst (asm) await_attach.simps) simp
    with True show ?thesis by (intro conjI exI [of _ "[]"]) simp_all
  next
    case False
    with "1.prems" obtain m v where v: "recv s = (Inr m, v)" "await_attach v = (Inr u, t)"
      by (subst (asm) await_attach.simps) (auto simp: seq_eq_Inr)
    from "1.IH" [OF False v] obtain ms where ms: "attach_allowed t" "receives recv v ms t"
      "\<forall>i < length ms. \<not> foldl attach_flag (attach_allowed v) (take i ms)"
      by blast
    have "\<not> foldl attach_flag (attach_allowed s) (take i (m # ms))" if "i < Suc (length ms)" for i
      using that ms(3) False recv_flag [OF v(1)] by (cases i) auto
    with ms v(1) show ?thesis by (intro conjI exI [of _ "m # ms"]) auto
  qed
qed

lemma await_attach_stream:
  "await_attach s = (x, t) \<Longrightarrow> \<exists>pre. stream s = pre @ stream t"
proof (induction s arbitrary: x t rule: await_attach.induct)
  case (1 s)
  show ?case
  proof (cases "attach_allowed s")
    case True
    with "1.prems" show ?thesis by (subst (asm) await_attach.simps) simp
  next
    case False
    with "1.prems" have "seq recv (\<lambda>_ s. await_attach s) s = (x, t)"
      by (subst (asm) await_attach.simps) simp
    then show ?thesis
    proof (cases rule: seq_elim)
      case (stop e)
      then obtain y where "read_message None s = (y, t) \<or>
          (\<exists>raw u. read_message None s = (Inr raw, u) \<and> stream t = stream u)"
        by (auto simp: recv_def recv_inner_def elim!: seq_elim)
      then show ?thesis using read_message_stream(1) by metis
    next
      case (go m u)
      obtain raw where "stream s = raw @ stream u"
        using go(1) unfolding recv_def by (rule recv_inner_message)
      with "1.IH" [OF False go] show ?thesis by (metis append.assoc)
    qed
  qed
qed

lemma execute_stream:
  assumes "execute cmd payload m s = (Inr r, t)"
  obtains pre raw where "stream s = pre @ raw @ stream t" "is_frame raw" "parse raw = Inr r"
    "msg_kind r = Response"
  using assms unfolding execute_def by (rule execute_response) (metis append.assoc that)

abbreviation attach_packet :: "byte list" where
  "attach_packet \<equiv> packet UTA_MS_NET_ATTACH_REQ attach_payload Async"

lemma attach_success:
  assumes "attach apn s = (Inr b, t)"
  obtains cfg r0 u r v a st where "attach_config apn = Inr cfg"
    "execute UTA_MS_CALL_PS_ATTACH_APN_CONFIG_REQ cfg Async s = (Inr r0, u)"
    "execute UTA_MS_NET_ATTACH_REQ attach_payload Async u = (Inr r, v)"
    "unpack ''nn'' (msg_body r) = Inr [a, ValInt st]"
    "if st \<noteq> 0xffffffff then b \<and> t = v
     else \<exists>w r' a' st'. await_attach v = (Inr (), w) \<and>
       execute UTA_MS_NET_ATTACH_REQ attach_payload Async w = (Inr r', t) \<and>
       unpack ''nn'' (msg_body r') = Inr [a', ValInt st'] \<and> b = (st' \<noteq> 0xffffffff)"
proof -
  from assms obtain cfg r u st v where cfg: "attach_config apn = Inr cfg"
    "execute UTA_MS_CALL_PS_ATTACH_APN_CONFIG_REQ cfg Async s = (Inr r, u)"
    and st: "attach_status u = (Inr st, v)"
    and rest: "seq (attach_retry st) (\<lambda>status. ret (status \<noteq> 0xffffffff)) v = (Inr b, t)"
    unfolding attach_def seq_eq_Inr [of _ _ s] seq_eq_Inr [where m = "execute _ _ _"]
      seq_eq_Inr [where m = attach_status]
    by auto
  obtain r1 a1 where r1: "execute UTA_MS_NET_ATTACH_REQ attach_payload Async u = (Inr r1, v)"
      "unpack ''nn'' (msg_body r1) = Inr [a1, ValInt st]"
    using st by (rule attach_status_success)
  show thesis
  proof (cases "st = 0xffffffff")
    case True
    with rest obtain w st' where w: "await_attach v = (Inr (), w)" "attach_status w = (Inr st', t)"
        "b \<longleftrightarrow> st' \<noteq> 0xffffffff"
      by (auto simp: attach_retry_def seq_eq_Inr)
    obtain r2 a2 where r2: "execute UTA_MS_NET_ATTACH_REQ attach_payload Async w = (Inr r2, t)"
        "unpack ''nn'' (msg_body r2) = Inr [a2, ValInt st']"
      using w(2) by (rule attach_status_success)
    with w True show thesis by (intro that [OF cfg r1]) auto
  next
    case False
    with rest show thesis by (intro that [OF cfg r1]) (auto simp: attach_retry_def)
  qed
qed

lemma await_attach_hears:
  assumes "await_attach v = (Inr (), w)"
  obtains raws ms where "receives recv v ms w"
    "list_all2 (\<lambda>raw m. is_frame raw \<and> parse raw = Inr m) raws ms" "stream v = concat raws @ stream w"
    "attach_allowed w" "\<forall>i < length ms. \<not> foldl attach_flag (attach_allowed v) (take i ms)"
    "sent w = sent v"
proof -
  from await_attach_receives [OF assms] obtain ms where ms: "attach_allowed w" "receives recv v ms w"
    "\<forall>i < length ms. \<not> foldl attach_flag (attach_allowed v) (take i ms)"
    by blast
  from receives_messages [OF ms(2) [unfolded recv_def]] obtain raws where
    "messages raws ms" "stream v = concat raws @ stream w" "listens v w"
    by blast
  with ms show thesis by (intro that [of ms raws]) (simp_all add: messages_def listens_def)
qed

lemma attach_too_long:
  "APN_MAX_LEN < length apn \<Longrightarrow>
   attach apn s = (Inl (Err (Codec (StringOverflow (length apn) APN_MAX_LEN))), s)"
  by (simp add: attach_def attach_config_def)

section \<open>The address\<close>

definition pick_address :: "ipv4 \<Rightarrow> ipv4 \<Rightarrow> ipv4 \<Rightarrow> ipv4 option" where
  \<comment> \<open>The last candidate that is not \<open>0.0.0.0\<close>.\<close>
  "pick_address a b c =
     (if c \<noteq> UNSPECIFIED then Some c
      else if b \<noteq> UNSPECIFIED then Some b
      else if a \<noteq> UNSPECIFIED then Some a
      else None)"

lemma parse_neg_ip_three: "parse_neg_ip body = Inr as \<Longrightarrow> \<exists>a b c. as = [a, b, c]"
  by (auto simp: parse_neg_ip_eq simp del: split_paired_Ex
      split: sum.splits codec_value.splits if_splits)

lemma query_ip_success:
  assumes "query_ip s = (Inr x, t)"
  obtains r u a b c r' dns where
    "execute UTA_MS_CALL_PS_GET_NEG_IP_ADDR_REQ query_payload Async s = (Inr r, u)"
    "parse_neg_ip (msg_body r) = Inr [a, b, c]"
    "execute UTA_MS_CALL_PS_GET_NEGOTIATED_DNS_REQ query_payload Async u = (Inr r', t)"
    "parse_dns (msg_body r') = Inr dns"
    "x = map_option (\<lambda>address. (address, dns)) (pick_address a b c)"
proof -
  from assms obtain r u as r' dns where
    run: "execute UTA_MS_CALL_PS_GET_NEG_IP_ADDR_REQ query_payload Async s = (Inr r, u)"
    "parse_neg_ip (msg_body r) = Inr as"
    "execute UTA_MS_CALL_PS_GET_NEGOTIATED_DNS_REQ query_payload Async u = (Inr r', t)"
    "parse_dns (msg_body r') = Inr dns"
    and x: "x = map_option (\<lambda>address. (address, dns))
      (find_first (\<lambda>address. address \<noteq> UNSPECIFIED) (rev as))"
    by (auto simp: query_ip_def builder_payloads seq_eq_Inr)
  obtain a b c where "as = [a, b, c]" using parse_neg_ip_three [OF run(2)] by blast
  with run x show thesis by (intro that [of r u a b c r' dns]) (simp_all add: pick_address_def)
qed

lemma pick_address_specified: "pick_address a b c = Some d \<Longrightarrow> d \<noteq> UNSPECIFIED"
  by (auto simp: pick_address_def split: if_splits)

lemma query_ip_specified: "query_ip s = (Inr (Some found), t) \<Longrightarrow> fst found \<noteq> UNSPECIFIED"
proof (erule query_ip_success)
  fix a b c dns
  assume "Some found = map_option (\<lambda>address. (address, dns)) (pick_address a b c)"
  then show "fst found \<noteq> UNSPECIFIED"
    using pick_address_specified [of a b c] by (cases "pick_address a b c") simp_all
qed

abbreviation query_packets :: "byte list list" where
  "query_packets \<equiv> [packet UTA_MS_CALL_PS_GET_NEG_IP_ADDR_REQ query_payload Async,
     packet UTA_MS_CALL_PS_GET_NEGOTIATED_DNS_REQ query_payload Async]"

lemma query_ip_sent: "query_ip s = (Inr x, t) \<Longrightarrow> sent t = sent s @ query_packets"
  by (erule query_ip_success) (simp add: execute_sent)

lemma query_ip_clock: "query_ip s = (x, t) \<Longrightarrow> os_clock t = os_clock s"
  using port_op.evolves [OF port_op_query_ip] by (fastforce simp: evolves_def)

text \<open>Rounds of the loop of \<open>wait_for_ip\<close> that go on: no address, the deadline not come, a sleep.\<close>

inductive retries :: "nat \<Rightarrow> nat \<Rightarrow> sys \<Rightarrow> nat \<Rightarrow> sys \<Rightarrow> bool" for deadline interval where
  retries_none: "retries deadline interval s 0 s"
| retries_more:
    "query_ip s = (Inr None, u) \<Longrightarrow> os_clock u (os_ticks u) < deadline \<Longrightarrow>
     retries deadline interval (log_call (OsSleep interval) (u\<lparr>os_ticks := os_ticks u + 1\<rparr>)) n t \<Longrightarrow>
     retries deadline interval s (Suc n) t"

lemma wait_for_ip_loop_trace:
  "wait_for_ip_loop deadline interval s = (Inr x, t) \<Longrightarrow>
   \<exists>n u v. retries deadline interval s n u \<and> query_ip u = (Inr x, v) \<and>
     (case x of
        None \<Rightarrow> deadline \<le> os_clock v (os_ticks v) \<and> t = v\<lparr>os_ticks := os_ticks v + 1\<rparr>
      | Some _ \<Rightarrow> t = v)"
proof (induction deadline interval s arbitrary: x t rule: wait_for_ip_loop.induct)
  case (1 deadline interval s)
  from "1.prems" obtain y u where run: "query_ip s = (Inr y, u)"
    and rest: "(case y of Some found \<Rightarrow> (Inr (Some found), u)
       | None \<Rightarrow> seq instant_now (\<lambda>n s. if n \<ge> deadline then (Inr None, s)
           else seq (sleep_for interval) (\<lambda>_ s. wait_for_ip_loop deadline interval s) s) u) =
         (Inr x, t)"
    by (subst (asm) wait_for_ip_loop.simps) (auto simp: seq_eq_Inr)
  show ?case
  proof (cases y)
    case (Some found)
    with rest run show ?thesis
      by (intro exI [of _ 0] exI [of _ s] exI [of _ u]) (auto intro: retries_none)
  next
    case None
    define v where "v = u\<lparr>os_ticks := os_ticks u + 1\<rparr>"
    have now: "instant_now u = (Inr (os_clock u (os_ticks u)), v)"
      by (simp add: instant_now_def v_def)
    show ?thesis
    proof (cases "deadline \<le> os_clock u (os_ticks u)")
      case True
      with None rest run now show ?thesis
        by (intro exI [of _ 0] exI [of _ s] exI [of _ u])
          (auto simp: seq_Inr v_def intro: retries_none)
    next
      case False
      have sleep: "sleep_for interval v = (Inr (), log_call (OsSleep interval) v)"
        by (simp add: sleep_for_def)
      from None rest now sleep False
      have "wait_for_ip_loop deadline interval (log_call (OsSleep interval) v) = (Inr x, t)"
        by (simp add: seq_Inr)
      from "1.IH" [OF run None now False sleep this] run None False show ?thesis
        unfolding v_def by (metis retries_more not_le)
    qed
  qed
qed

lemma retries_sent:
  "retries deadline interval s n u \<Longrightarrow> sent u = sent s @ concat (replicate n query_packets)"
proof (induction rule: retries.induct)
  case (retries_more s u n t)
  then show ?case by (simp add: query_ip_sent sent_log_call)
qed simp

lemma retries_clock: "retries deadline interval s n u \<Longrightarrow> os_clock u = os_clock s"
  by (induction rule: retries.induct) (simp_all add: query_ip_clock)

lemma wait_for_ip_trace:
  assumes "wait_for_ip timeout interval s = (Inr x, t)"
  obtains n u v where
    "retries (os_clock s (os_ticks s) + timeout) interval (s\<lparr>os_ticks := os_ticks s + 1\<rparr>) n u"
    "query_ip u = (Inr x, v)"
    "case x of
       None \<Rightarrow> os_clock s (os_ticks s) + timeout \<le> os_clock s (os_ticks v) \<and>
         t = v\<lparr>os_ticks := os_ticks v + 1\<rparr>
     | Some _ \<Rightarrow> t = v"
    "sent t = sent s @ concat (replicate (Suc n) query_packets)"
proof -
  let ?s = "s\<lparr>os_ticks := os_ticks s + 1\<rparr>" and ?d = "os_clock s (os_ticks s) + timeout"
  have "wait_for_ip_loop ?d interval ?s = (Inr x, t)"
    using assms by (auto simp: wait_for_ip_def instant_now_def instant_add_def seq_eq_Inr
        split: if_splits)
  from wait_for_ip_loop_trace [OF this] obtain n u v where
    run: "retries ?d interval ?s n u" "query_ip u = (Inr x, v)"
      "case x of None \<Rightarrow> ?d \<le> os_clock v (os_ticks v) \<and> t = v\<lparr>os_ticks := os_ticks v + 1\<rparr>
        | Some _ \<Rightarrow> t = v"
    by blast
  moreover have "os_clock v = os_clock s"
    using query_ip_clock [OF run(2)] retries_clock [OF run(1)] by simp
  moreover from run(3) have "sent t = sent v" by (cases x) simp_all
  then have "sent t = sent s @ concat (replicate (Suc n) query_packets)"
    using query_ip_sent [OF run(2)] retries_sent [OF run(1)]
    by (simp flip: replicate_append_same)
  ultimately show thesis by (intro that [of n u v]) (auto split: option.splits)
qed

lemma wait_for_ip_specified:
  "wait_for_ip timeout interval s = (Inr (Some (address, dns)), t) \<Longrightarrow> address \<noteq> UNSPECIFIED"
  by (erule wait_for_ip_trace) (auto dest: query_ip_specified)

section \<open>The data channel\<close>

lemma open_data_channel_success:
  assumes "open_data_channel path s = (Inr (), t)"
  obtains r u r' v r'' where "length path \<le> 23"
    "execute UTA_MS_CALL_PS_CONNECT_REQ connect_payload Async s = (Inr r, u)"
    "execute UTA_RPC_PS_CONNECT_TO_DATACHANNEL_REQ (channel_payload path) Sync u = (Inr r', v)"
    "6 \<le> length (msg_body r)"
    "execute UTA_RPC_PS_CONNECT_SETUP_REQ
       (take (length (msg_body r) - 6) (msg_body r) @ msg_body r' @ asn_int 0) Sync v = (Inr r'', t)"
proof -
  have "length path \<le> 23"
  proof (rule ccontr)
    assume "\<not> length path \<le> 23"
    then have "connect_to_datachannel path = Inl (Err (StringOverflow (length path + 1) 24))"
      by (intro connect_to_datachannel_overflow) simp
    with assms show False by (auto simp: open_data_channel_def seq_eq_Inr)
  qed
  with assms that show thesis
    by (auto simp: open_data_channel_def builder_payloads seq_eq_Inr Let_def
        connect_to_datachannel_fits channel_payload_def not_less split: if_splits)
qed

section \<open>No operation panics\<close>

text \<open>
  An operation that cannot panic while the clock stays two minutes away from the end of its range
  (the longest constant timeout of the program).
\<close>

locale calm_op = port_op +
  assumes no_panic: "clock_ok READY_TIMEOUT s \<Longrightarrow> fst (op s) \<noteq> Inl Panic"

lemma calm_ret: "calm_op (ret a)"
  by (intro calm_op.intro calm_op_axioms.intro port_op_ret) simp

lemma calm_raise: "calm_op (raise e)"
  by (intro calm_op.intro calm_op_axioms.intro port_op_raise) simp

lemma calm_lift_res: "r \<noteq> Inl Panic \<Longrightarrow> calm_op (lift_res r)"
  by (intro calm_op.intro calm_op_axioms.intro port_op_lift_res) simp

lemma calm_if: "calm_op m \<Longrightarrow> calm_op n \<Longrightarrow> calm_op (if b then m else n)"
  by simp

lemma calm_seq:
  assumes m: "calm_op m" and f: "\<And>a s t. m s = (Inr a, t) \<Longrightarrow> calm_op (f a)"
  shows "calm_op (seq m f)"
proof (intro calm_op.intro calm_op_axioms.intro port_op.intro)
  fix s x t
  assume run: "seq m f s = (x, t)"
  then show "evolves s t"
    by (cases rule: seq_elim)
      (blast intro: evolves_trans port_op.evolves [OF calm_op.axioms(1) [OF m]]
        port_op.evolves [OF calm_op.axioms(1) [OF f]])+
next
  fix s
  assume ok: "clock_ok READY_TIMEOUT s"
  show "fst (seq m f s) \<noteq> Inl Panic"
  proof (cases "m s")
    case (Pair x t)
    show ?thesis
    proof (cases x)
      case (Inl e)
      with Pair calm_op.no_panic [OF m ok] show ?thesis by (simp add: seq_Inl)
    next
      case (Inr a)
      with Pair have run: "m s = (Inr a, t)" by simp
      have "clock_ok READY_TIMEOUT t"
        using ok evolves_clock_ok [OF port_op.evolves [OF calm_op.axioms(1) [OF m] run]] by simp
      from calm_op.no_panic [OF f [OF run] this] run show ?thesis by (simp add: seq_Inr)
    qed
  qed
qed

lemma calm_opI:
  assumes "\<And>s x t. op s = (x, t) \<Longrightarrow> evolves s t"
    and "\<And>s. clock_ok READY_TIMEOUT s \<Longrightarrow> fst (op s) \<noteq> Inl Panic"
  shows "calm_op op"
  using assms by unfold_locales

lemma calm_execute_with_timeout:
  assumes "timeout \<le> READY_TIMEOUT"
  shows "calm_op (execute_with_timeout cmd payload m timeout)"
  using assms
  by (intro calm_op.intro calm_op_axioms.intro request.port_op_axioms execute_no_panic_clock)
    (rule clock_ok_mono)

lemma calm_execute: "calm_op (execute cmd payload m)"
  unfolding execute_def
  by (rule calm_execute_with_timeout) (simp add: RESPONSE_TIMEOUT_def READY_TIMEOUT_def nanos_def)

lemma from_codec_Panic [simp]: "from_codec r = Inl Panic \<longleftrightarrow> r = Inl Panic"
  by (simp add: from_codec_def)

lemma int_at_clean: "int_at vs i \<noteq> Inl Panic"
  by (simp add: int_at_def ok_or_def split: option.split)

lemma ok_or_clean: "ok_or e x \<noteq> Inl Panic"
  by (simp add: ok_or_def split: option.split)

lemma rbind_clean: "r \<noteq> Inl Panic \<Longrightarrow> (\<And>a. f a \<noteq> Inl Panic) \<Longrightarrow> rbind r f \<noteq> Inl Panic"
  by (cases r) simp_all

lemma parser_clean:
  "parse_neg_ip body \<noteq> Inl Panic" "parse_dns body \<noteq> Inl Panic" "parse_sys_info body \<noteq> Inl Panic"
  unfolding parse_neg_ip_def parse_dns_def parse_sys_info_def
  by (intro rbind_clean unpack_clean ok_or_clean; simp)+

lemma request_clean:
  "attach_config apn \<noteq> Inl Panic" "connect_to_datachannel path \<noteq> Inl Panic"
proof -
  show "attach_config apn \<noteq> Inl Panic"
    using attach_config_layout [of apn]
    by (cases "length apn \<le> APN_MAX_LEN") (simp_all add: attach_config_def)
  show "connect_to_datachannel path \<noteq> Inl Panic"
    using connect_to_datachannel_fits [of path] connect_to_datachannel_overflow [of path]
    by (cases "length path \<le> 23") simp_all
qed

lemmas calm_intros = calm_ret calm_raise calm_lift_res calm_if calm_seq calm_execute

lemmas clean_calls = int_at_clean unpack_clean parser_clean request_clean

lemma wait_ready_loop_calm:
  "(wait_ready_loop d s = (x, t) \<longrightarrow> evolves s t) \<and>
   (clock_ok READY_TIMEOUT s \<longrightarrow> fst (wait_ready_loop d s) \<noteq> Inl Panic)"
proof (induction d s arbitrary: x t rule: wait_ready_loop.induct)
  case (1 d s)
  obtain y u where run: "execute_with_timeout CSI_FCC_LOCK_QUERY_REQ (pack_u32 0) Async
      READY_PROBE_TIMEOUT s = (y, u)"
    by force
  have su: "evolves s u" using run by (rule request.evolves)
  have ny: "y \<noteq> Inl Panic" if "clock_ok READY_TIMEOUT s"
  proof -
    have "READY_PROBE_TIMEOUT \<le> READY_TIMEOUT"
      by (simp add: READY_PROBE_TIMEOUT_def READY_TIMEOUT_def nanos_def)
    from calm_op.no_panic [OF calm_execute_with_timeout [OF this] that] run show ?thesis
      by (metis fst_conv)
  qed
  define v where "v = u\<lparr>os_ticks := Suc (os_ticks u)\<rparr>"
  have v: "instant_now u = (Inr (os_clock u (os_ticks u)), v)" by (simp add: instant_now_def v_def)
  have uv: "evolves u v" by (simp add: v_def evolves_def pending_def)
  show ?case
  proof (cases "y = Inl (Err Timeout) \<and> \<not> d \<le> os_clock u (os_ticks u)")
    case False
    with run v su uv ny show ?thesis
      by (subst (1 2) wait_ready_loop.simps)
        (auto simp: seq_Inr intro: evolves_trans split: sum.splits if_splits)
  next
    case True
    then have loop: "wait_ready_loop d s = seq reopen (\<lambda>_. wait_ready_loop d) v"
      using run v by (subst wait_ready_loop.simps) (simp add: seq_Inr)
    obtain z w where re: "reopen v = (z, w)" by force
    have vw: "evolves v w" using re by (rule port_op.evolves [OF port_op_reopen])
    show ?thesis
    proof (cases z)
      case (Inl e)
      have "e \<noteq> Panic"
        using re Inl by (auto simp: reopen_def seq_eq_Inl open_port_def Let_def
            split: list.splits option.splits)
      with Inl re su uv vw show ?thesis
        unfolding loop by (auto simp: seq_Inl intro: evolves_trans)
    next
      case (Inr a)
      have "evolves s w" using su uv vw by (blast intro: evolves_trans)
      moreover have "clock_ok READY_TIMEOUT w = clock_ok READY_TIMEOUT s"
        using \<open>evolves s w\<close> by (rule evolves_clock_ok)
      moreover have "(wait_ready_loop d w = (x, t) \<longrightarrow> evolves w t) \<and>
          (clock_ok READY_TIMEOUT w \<longrightarrow> fst (wait_ready_loop d w) \<noteq> Inl Panic)"
        using "1.IH" [OF run [symmetric] _ refl v] True re Inr by blast
      ultimately show ?thesis
        unfolding loop using re Inr by (auto simp: seq_Inr intro: evolves_trans)
    qed
  qed
qed

interpretation ready_op: calm_op wait_ready
proof (rule calm_opI)
  show "evolves s t" if "wait_ready s = (x, t)" for s x t
    using that wait_ready_loop_calm listener.axioms(1) [OF listener_instant_now]
    by (auto simp: wait_ready_def elim!: seq_elim
        dest!: port_op.evolves [OF listener_port_op [OF listener_instant_now]]
        intro: evolves_trans)
  fix s
  assume ok: "clock_ok READY_TIMEOUT s"
  then have add: "instant_add (os_clock s (os_ticks s)) READY_TIMEOUT =
      (Inr (os_clock s (os_ticks s) + READY_TIMEOUT) :: (error, nat) res)"
    by (simp add: instant_add_def clock_ok_def)
  moreover have "clock_ok READY_TIMEOUT (s\<lparr>os_ticks := Suc (os_ticks s)\<rparr>)"
    using ok by (simp add: clock_ok_def)
  ultimately show "fst (wait_ready s) \<noteq> Inl Panic"
    using wait_ready_loop_calm by (simp add: wait_ready_def instant_now_def seq_def)
qed

interpretation init_op: calm_op initialize
proof -
  have "calm_op (run_commands cs)" for cs
    by (induction cs) (auto simp only: run_commands.simps intro!: calm_ret calm_seq calm_execute)
  then show "calm_op initialize" by (simp add: initialize_def)
qed

interpretation version_op: calm_op firmware_version
  unfolding firmware_version_def builder_payloads by (auto simp: clean_calls intro!: calm_intros)

interpretation query_op: calm_op query_ip
  unfolding query_ip_def builder_payloads by (auto simp: clean_calls intro!: calm_intros)

interpretation channel_op: calm_op "open_data_channel path" for path
  unfolding open_data_channel_def builder_payloads Let_def
  by (auto simp: clean_calls intro!: calm_intros)

lemma calm_fcc_unlock:
  assumes "\<And>m. 4 \<le> length (sha256 m)"
  shows "calm_op (fcc_unlock sha256)"
proof -
  have "digest_answer (sha256 m) \<noteq> Inl Panic" for m
    using assms [of m] by (simp add: digest_answer_def)
  then show ?thesis
    unfolding fcc_unlock_def fcc_challenge_def by (auto simp: clean_calls intro!: calm_intros)
qed

lemma calm_recv: "calm_op recv"
  using listener_port_op [OF listener_recv] recv_no_panic
  by (intro calm_op.intro calm_op_axioms.intro)

interpretation mode_op: calm_op "set_mode m" for m
proof -
  have "calm_op (set_mode_loop m)"
  proof (rule calm_opI)
    note wait = mode_wait.loop_outcome [where m = m]
    have verdict: "calm_op (mode_verdict m msg)" for msg
      unfolding mode_verdict_def by (auto simp: clean_calls intro!: calm_intros)
    have quiet: "fst (mode_verdict m msg v) \<noteq> Inl Panic" for msg v
      using int_at_clean [of "msg_content msg" 0]
      by (cases "int_at (msg_content msg) 0") (auto simp: mode_verdict_def)
    fix s
    obtain ms u where rcv: "receives recv s ms u" and stop:
      "(\<exists>e. recv u = (Inl e, snd (set_mode_loop m s)) \<and> fst (set_mode_loop m s) = Inl e) \<or>
       (\<exists>msg v. recv u = (Inr msg, v) \<and> mode_verdict m msg v = set_mode_loop m s)"
      using wait by blast
    have su: "evolves s u"
      using receives_messages rcv unfolding recv_def by (fastforce simp: listens_def)
    show "evolves s t" if "set_mode_loop m s = (x, t)" for x t
      using stop su that
      by (auto dest!: calm_op.axioms(1) [OF calm_recv, THEN port_op.evolves]
          calm_op.axioms(1) [OF verdict, THEN port_op.evolves] intro: evolves_trans)
    show "fst (set_mode_loop m s) \<noteq> Inl Panic" if "clock_ok READY_TIMEOUT s"
      using stop
    proof (elim disjE exE conjE)
      fix e
      assume "recv u = (Inl e, snd (set_mode_loop m s))" "fst (set_mode_loop m s) = Inl e"
      with recv_no_panic [of u] show ?thesis by simp
    next
      fix msg v
      assume "mode_verdict m msg v = set_mode_loop m s"
      with quiet [of msg v] show ?thesis by simp
    qed
  qed
  then show "calm_op (set_mode m)"
    unfolding set_mode_def mode_request by (auto simp: clean_calls intro!: calm_intros)
qed

interpretation attach_op: calm_op "attach apn" for apn
proof -
  have "calm_op await_attach"
  proof (rule calm_opI)
    show "evolves s t" if "await_attach s = (x, t)" for s x t
      using await_attach_listens [OF that] by (simp add: listens_def)
    show "fst (await_attach s) \<noteq> Inl Panic" if "clock_ok READY_TIMEOUT s" for s
    proof (induction s rule: await_attach.induct)
      case (1 s)
      then show ?case
        using recv_no_panic [of s]
        by (subst await_attach.simps) (auto simp: seq_def split: prod.splits sum.splits)
    qed
  qed
  moreover have "calm_op attach_status"
    unfolding attach_status_def builder_payloads by (auto simp: clean_calls intro!: calm_intros)
  ultimately show "calm_op (attach apn)"
    unfolding attach_def attach_retry_def by (auto simp: clean_calls intro!: calm_intros)
qed

end
