(* ===== verification/Protocol.thy ===== *)
theory Protocol
  imports ModemFacts
begin

text \<open>
  The conversation of the bring-up, as a specification of \<open>src/src/modem.rs\<close> by languages of packets:
  what an operation has written to the port is always a prefix of a word of its language, and a
  whole word when it returns a value.  The locale \<open>emitter\<close> is that contract; it is closed under
  sequencing, and every operation is shown to meet it.
\<close>

section \<open>The contract\<close>

definition conc :: "'a list set \<Rightarrow> 'a list set \<Rightarrow> 'a list set" where
  "conc A B = {a @ b |a b. a \<in> A \<and> b \<in> B}"

locale emitter = port_op op for op :: "'a port" +
  fixes lang :: "byte list list set"
  assumes word: "op s = (Inr a, t) \<Longrightarrow> \<exists>w \<in> lang. sent t = sent s @ w"
    and prefix: "op s = (Inl e, t) \<Longrightarrow> \<exists>p q. p @ q \<in> lang \<and> sent t = sent s @ p"
    and nonempty: "lang \<noteq> {}"
begin

lemma any_outcome: "op s = (x, t) \<Longrightarrow> \<exists>p q. p @ q \<in> lang \<and> sent t = sent s @ p"
proof (cases x)
  case (Inr a)
  assume "op s = (x, t)"
  with Inr word obtain w where "w \<in> lang" "sent t = sent s @ w" by blast
  then show ?thesis by (intro exI [of _ w] exI [of _ "[]"]) simp
qed (use prefix in blast)

end

lemma concI: "a \<in> A \<Longrightarrow> b \<in> B \<Longrightarrow> a @ b \<in> conc A B"
  by (auto simp: conc_def)

lemma conc_Nil [simp]: "conc A {[]} = A" "conc {[]} A = A"
  by (auto simp: conc_def)

lemma conc_assoc: "conc (conc A B) C = conc A (conc B C)"
  by (auto simp: conc_def) (metis append.assoc)+

lemma emitterI:
  assumes "port_op op"
    and "\<And>s a t. op s = (Inr a, t) \<Longrightarrow> \<exists>w \<in> lang. sent t = sent s @ w"
    and "\<And>s e t. op s = (Inl e, t) \<Longrightarrow> \<exists>p q. p @ q \<in> lang \<and> sent t = sent s @ p"
    and "lang \<noteq> {}"
  shows "emitter op lang"
  using assms by (intro emitter.intro emitter_axioms.intro)

lemma emitter_ret: "emitter (ret a) {[]}"
  by (rule emitterI) (auto intro: port_op_ret)

lemma emitter_raise: "lang \<noteq> {} \<Longrightarrow> emitter (raise e) lang"
  by (rule emitterI) (auto intro: port_op_raise)

lemma emitter_lift_res: "emitter (lift_res r) {[]}"
  by (rule emitterI) (auto intro: port_op_lift_res)

lemma emitter_if: "emitter m lang \<Longrightarrow> emitter n lang \<Longrightarrow> emitter (if b then m else n) lang"
  by simp

lemma emitter_larger:
  assumes "emitter m A" and "A \<subseteq> B"
  shows "emitter m B"
  using emitter.word [OF assms(1)] emitter.prefix [OF assms(1)] emitter.nonempty [OF assms(1)]
    assms(2)
  by (intro emitterI emitter.axioms(1) [OF assms(1)]) blast+

lemma emitter_listener:
  assumes "listener m"
  shows "emitter m {[]}"
  using listener.sends_nothing [OF assms]
  by (intro emitterI listener_port_op [OF assms]) fastforce+

lemma emitter_seq:
  assumes m: "emitter m A" and f: "\<And>a. emitter (f a) B"
  shows "emitter (seq m f) (conc A B)"
proof (rule emitterI)
  show "port_op (seq m f)"
    using emitter.axioms(1) [OF m] emitter.axioms(1) [OF f] by (rule port_op_seq)
next
  fix s a t
  assume "seq m f s = (Inr a, t)"
  then obtain b u where "m s = (Inr b, u)" "f b u = (Inr a, t)" by (auto simp: seq_eq_Inr)
  with emitter.word [OF m] emitter.word [OF f] obtain v w where
    "v \<in> A" "sent u = sent s @ v" "w \<in> B" "sent t = sent u @ w" by blast
  then show "\<exists>w \<in> conc A B. sent t = sent s @ w" by (auto intro: concI)
next
  fix s e t
  assume "seq m f s = (Inl e, t)"
  then consider (stop) "m s = (Inl e, t)"
    | (go) b u where "m s = (Inr b, u)" "f b u = (Inl e, t)"
    by (auto simp: seq_eq_Inl)
  then show "\<exists>p q. p @ q \<in> conc A B \<and> sent t = sent s @ p"
  proof cases
    case stop
    from emitter.prefix [OF m stop] obtain p q where "p @ q \<in> A" "sent t = sent s @ p" by blast
    moreover obtain w where "w \<in> B" using emitter.nonempty [OF f] by blast
    ultimately show ?thesis
      by (metis append.assoc concI)
  next
    case go
    with emitter.word [OF m] emitter.prefix [OF f] obtain v p q where
      "v \<in> A" "sent u = sent s @ v" "p @ q \<in> B" "sent t = sent u @ p" by blast
    then show ?thesis by (metis append.assoc concI)
  qed
next
  show "conc A B \<noteq> {}"
    using emitter.nonempty [OF m] emitter.nonempty [OF f] by (auto simp: conc_def)
qed

lemma emitter_execute: "emitter (execute cmd payload m) {[packet cmd payload m]}"
  by (rule emitterI)
    (use port_op_execute execute_sent in \<open>auto intro!: exI [of _ "[packet cmd payload m]"] exI [of _ "[]"]\<close>)

section \<open>The languages of the operations\<close>

definition probe_words :: "byte list list set" where
  "probe_words = {replicate (Suc k) probe |k. True}"

definition init_words :: "byte list list set" where
  "init_words = {map (\<lambda>c. packet c (pack_u32 0) Sync) init_commands}"

definition unlock_words :: "byte list list set" where
  "unlock_words =
     {[packet CSI_FCC_LOCK_QUERY_REQ (pack_u32 0) Async]} \<union>
     {[packet CSI_FCC_LOCK_QUERY_REQ (pack_u32 0) Async,
       packet CSI_FCC_LOCK_GEN_CHALLENGE_REQ (pack_u32 0) Async,
       packet CSI_FCC_LOCK_VER_CHALLENGE_REQ (pack_u32 answer) Async] |answer. True}"

definition mode_words :: "u32 \<Rightarrow> byte list list set" where
  "mode_words m =
     {[packet UTA_MODE_SET_REQ (asn_int 0 @ asn_int MODE_TID @ asn_int m) Sync]}"

definition version_words :: "byte list list set" where
  "version_words = {[packet UTA_SYS_GET_INFO (info_payload 0) Sync]}"

definition config_packet :: "string \<Rightarrow> byte list" where
  "config_packet apn =
     packet UTA_MS_CALL_PS_ATTACH_APN_CONFIG_REQ (layout apn_specs (apn_args (padded_apn apn))) Async"

definition attach_words :: "string \<Rightarrow> byte list list set" where
  "attach_words apn =
     {[config_packet apn, attach_packet], [config_packet apn, attach_packet, attach_packet]}"

definition query_words :: "byte list list set" where
  "query_words = {concat (replicate (Suc n) query_packets) |n. True}"

definition channel_words :: "string \<Rightarrow> byte list list set" where
  "channel_words path =
     {[packet UTA_MS_CALL_PS_CONNECT_REQ connect_payload Async,
       packet UTA_RPC_PS_CONNECT_TO_DATACHANNEL_REQ (channel_payload path) Sync,
       packet UTA_RPC_PS_CONNECT_SETUP_REQ setup Sync] |setup. True}"

section \<open>The operations meet them\<close>

interpretation ready_words: emitter wait_ready probe_words
proof (rule emitterI)
  show "port_op wait_ready" by (rule ready_op.port_op_axioms)
  show "\<exists>w \<in> probe_words. sent t = sent s @ w" if "wait_ready s = (Inr a, t)" for s a t
  proof -
    from wait_ready_trace [OF that] obtain k where "sent t = sent s @ replicate k probe" "0 < k"
      by auto
    then show ?thesis unfolding probe_words_def by (cases k) auto
  qed
  show "\<exists>p q. p @ q \<in> probe_words \<and> sent t = sent s @ p" if "wait_ready s = (Inl e, t)" for s e t
  proof -
    from wait_ready_trace [OF that] obtain k where "sent t = sent s @ replicate k probe" by blast
    moreover have "replicate k probe @ [probe] \<in> probe_words"
      by (auto simp: probe_words_def replicate_append_same intro!: exI [of _ k])
    ultimately show ?thesis by blast
  qed
qed (auto simp: probe_words_def)

interpretation init_words: emitter initialize init_words
proof -
  have "emitter (run_commands cs) {map (\<lambda>c. packet c (pack_u32 0) Sync) cs}" for cs
  proof (induction cs)
    case Nil
    show ?case using emitter_ret by (simp only: run_commands.simps list.map)
  next
    case (Cons c cs)
    from emitter_seq [OF emitter_execute Cons.IH] show ?case by (simp add: conc_def)
  qed
  then show "emitter initialize init_words" by (simp add: initialize_def init_words_def)
qed

lemma emitter_lift_seq:
  assumes "\<And>a. emitter (f a) lang"
  shows "emitter (seq (lift_res r) f) lang"
  using emitter_seq [OF emitter_lift_res assms] by simp

lemma emitter_nothing:
  assumes "lang \<noteq> {}" and "[] \<in> lang"
  shows "emitter (ret a) lang"
  using emitter_larger [OF emitter_ret, of lang] assms by simp

lemma emitter_fcc_challenge:
  "emitter (fcc_challenge sha256)
     {[packet CSI_FCC_LOCK_GEN_CHALLENGE_REQ (pack_u32 0) Async,
       packet CSI_FCC_LOCK_VER_CHALLENGE_REQ (pack_u32 answer) Async] |answer. True}"
proof -
  let ?ver = "{[packet CSI_FCC_LOCK_VER_CHALLENGE_REQ (pack_u32 answer) Async] |answer. True}"
  have verdict: "emitter (seq (lift_res (from_codec (unpack ''n'' (msg_body response)))) (\<lambda>values.
     seq (lift_res (int_at values 0)) (\<lambda>v. if v \<noteq> 1 then raise FccUnlock else ret ()))) {[]}" for response
    by (intro emitter_lift_seq emitter_if emitter_raise emitter_ret) simp
  have ver: "emitter (execute CSI_FCC_LOCK_VER_CHALLENGE_REQ (pack_u32 answer) Async) ?ver" for answer
    by (rule emitter_larger [OF emitter_execute]) auto
  have "emitter (fcc_challenge sha256)
      (conc {[packet CSI_FCC_LOCK_GEN_CHALLENGE_REQ (pack_u32 0) Async]} (conc ?ver {[]}))"
    unfolding fcc_challenge_def
    by (intro emitter_seq emitter_execute emitter_lift_seq ver verdict)
  then show ?thesis by (rule emitter_larger) (auto simp: conc_def)
qed

interpretation unlock_words: emitter "fcc_unlock sha256" unlock_words for sha256
proof -
  let ?query = "[packet CSI_FCC_LOCK_QUERY_REQ (pack_u32 0) Async]"
  let ?rest = "{[]} \<union> {[packet CSI_FCC_LOCK_GEN_CHALLENGE_REQ (pack_u32 0) Async,
       packet CSI_FCC_LOCK_VER_CHALLENGE_REQ (pack_u32 answer) Async] |answer. True}"
  have "emitter (fcc_challenge sha256) ?rest"
    by (rule emitter_larger [OF emitter_fcc_challenge]) auto
  moreover have "emitter (ret ()) ?rest" by (rule emitter_nothing) auto
  ultimately have "emitter (fcc_unlock sha256) (conc {?query} ?rest)"
    unfolding fcc_unlock_def
    by (intro emitter_seq emitter_execute emitter_lift_seq emitter_if)
  then show "emitter (fcc_unlock sha256) unlock_words"
    by (rule emitter_larger) (auto simp: conc_def unlock_words_def)
qed

lemma listener_mode_verdict: "listener (mode_verdict m msg)"
  unfolding mode_verdict_def by (intro listener_intros)

lemma listener_set_mode_loop: "listener (set_mode_loop m)"
proof (rule listenerI)
  fix s x t
  assume run: "set_mode_loop m s = (x, t)"
  obtain ms u where rcv: "receives recv s ms u" and stop:
    "(\<exists>e. recv u = (Inl e, t)) \<or> (\<exists>msg v. recv u = (Inr msg, v) \<and> mode_verdict m msg v = (x, t))"
    using mode_wait.loop_outcome [of s m] run by auto
  have "listens s u"
    using receives_messages rcv unfolding recv_def by blast
  with stop show "listens s t"
    by (blast intro: listens_trans listener.listens [OF listener_recv]
        listener.listens [OF listener_mode_verdict])
qed

interpretation mode_words: emitter "set_mode m" "mode_words m" for m
proof -
  have "emitter (set_mode m) (conc {[packet UTA_MODE_SET_REQ
      (asn_int 0 @ asn_int MODE_TID @ asn_int m) Sync]} {[]})"
    unfolding set_mode_def mode_request from_codec_simps seq_lift_Inr
    by (intro emitter_seq emitter_execute emitter_lift_seq emitter_if emitter_raise
        emitter_listener listener_set_mode_loop) simp
  then show "emitter (set_mode m) (mode_words m)" by (simp add: mode_words_def)
qed

interpretation version_words: emitter firmware_version version_words
proof -
  have "emitter firmware_version (conc version_words {[]})"
    unfolding firmware_version_def builder_payloads seq_lift_Inr version_words_def
    by (intro emitter_seq emitter_execute emitter_lift_seq emitter_ret)
  then show "emitter firmware_version version_words" by simp
qed

lemma version_sent:
  "firmware_version s = (x, t) \<Longrightarrow>
  sent t = sent s @ [packet UTA_SYS_GET_INFO (info_payload 0) Sync]"
  unfolding firmware_version_def builder_payloads seq_lift_Inr
  by (elim seq_elim) (auto dest!: execute_sent simp: prog_simps elim!: seq_elim)

lemma listener_await_attach: "listener await_attach"
  by (rule listenerI) (rule await_attach_listens)

interpretation attach_words: emitter "attach apn" "attach_words apn" for apn
proof (cases "length apn \<le> APN_MAX_LEN")
  case True
  have status: "emitter attach_status {[attach_packet]}"
  proof -
    have "emitter attach_status (conc {[attach_packet]} {[]})"
      unfolding attach_status_def builder_payloads seq_lift_Inr
      by (intro emitter_seq emitter_execute emitter_lift_seq emitter_lift_res)
    then show ?thesis by simp
  qed
  have "emitter (seq await_attach (\<lambda>_. attach_status)) (conc {[]} {[attach_packet]})"
    by (intro emitter_seq emitter_listener listener_await_attach status)
  from this have retry: "emitter (attach_retry st) {[], [attach_packet]}" for st
    unfolding attach_retry_def
    by (intro emitter_if emitter_nothing) (auto intro: emitter_larger)
  have "emitter (attach apn) (conc {[config_packet apn]} (conc {[attach_packet]}
      (conc {[], [attach_packet]} {[]})))"
    unfolding attach_def attach_config_layout [OF True] from_codec_simps seq_lift_Inr
      config_packet_def
    by (intro emitter_seq emitter_execute status retry emitter_ret)
  then show "emitter (attach apn) (attach_words apn)"
    by (rule emitter_larger) (auto simp: conc_def attach_words_def)
next
  case False
  then have run: "attach apn s = (Inl (Err (Codec (StringOverflow (length apn) APN_MAX_LEN))), s)" for s
    by (intro attach_too_long) simp
  show "emitter (attach apn) (attach_words apn)"
    by (rule emitterI) (auto simp: run attach_op.port_op_axioms attach_words_def)
qed

interpretation query_words: emitter query_ip "{query_packets}"
proof -
  have "emitter query_ip (conc {[packet UTA_MS_CALL_PS_GET_NEG_IP_ADDR_REQ query_payload Async]}
     (conc {[packet UTA_MS_CALL_PS_GET_NEGOTIATED_DNS_REQ query_payload Async]} {[]}))"
    unfolding query_ip_def builder_payloads seq_lift_Inr
    by (intro emitter_seq emitter_execute emitter_lift_seq emitter_ret)
  then show "emitter query_ip {query_packets}" by (simp add: conc_def)
qed

interpretation channel_words: emitter "open_data_channel path" "channel_words path" for path
proof (cases "length path \<le> 23")
  case True
  let ?last = "{[packet UTA_RPC_PS_CONNECT_SETUP_REQ setup Sync] |setup. True}"
  have request: "connect_to_datachannel path = Inr (channel_payload path)"
    using connect_to_datachannel_fits [OF True] by (simp add: channel_payload_def)
  have setup_word: "emitter (execute UTA_RPC_PS_CONNECT_SETUP_REQ b Sync) ?last" for b
    by (rule emitter_larger [OF emitter_execute]) auto
  have "emitter (open_data_channel path)
      (conc {[packet UTA_MS_CALL_PS_CONNECT_REQ connect_payload Async]}
      (conc {[packet UTA_RPC_PS_CONNECT_TO_DATACHANNEL_REQ (channel_payload path) Sync]}
      (conc ?last {[]})))"
    unfolding open_data_channel_def builder_payloads request from_codec_simps seq_lift_Inr Let_def
    by (intro emitter_seq emitter_execute setup_word emitter_ret emitter_if emitter_raise)
      (auto simp: conc_def)
  then show "emitter (open_data_channel path) (channel_words path)"
    by (rule emitter_larger) (auto simp: conc_def channel_words_def)
next
  case False
  then have request: "connect_to_datachannel path = Inl (Err (StringOverflow (length path + 1) 24))"
    by (intro connect_to_datachannel_overflow) simp
  have early: "sent t = sent s @ [packet UTA_MS_CALL_PS_CONNECT_REQ connect_payload Async] \<and> (\<exists>e. x = Inl e)"
    if "open_data_channel path s = (x, t)" for s x t
    using that unfolding open_data_channel_def builder_payloads request seq_lift_Inr
    by (auto elim!: seq_elim dest!: execute_sent)
  have word: "[packet UTA_MS_CALL_PS_CONNECT_REQ connect_payload Async] @
      [packet UTA_RPC_PS_CONNECT_TO_DATACHANNEL_REQ (channel_payload path) Sync,
       packet UTA_RPC_PS_CONNECT_SETUP_REQ b Sync] \<in> channel_words path" for b
    by (auto simp: channel_words_def)
  show "emitter (open_data_channel path) (channel_words path)"
  proof (rule emitterI)
    show "\<exists>w \<in> channel_words path. sent t = sent s @ w"
      if "open_data_channel path s = (Inr a, t)" for s a t
      using early [OF that] by simp
    show "\<exists>p q. p @ q \<in> channel_words path \<and> sent t = sent s @ p"
      if "open_data_channel path s = (Inl e, t)" for s e t
      using early [OF that] word by blast
  qed (use word in \<open>auto simp: channel_op.port_op_axioms\<close>)
qed

end
