(* ===== verification/Peer.thy ===== *)
theory Peer
  imports Protocol
begin

text \<open>
  A cooperative modem: every write succeeds, polls and reads deliver, the clock moves by less than
  the shortest timeout, and the byte stream holds a script of answers.  Each operation of
  \<open>src/src/modem.rs\<close> is shown to return the value the answers stand for; these are the liveness
  results, and the concrete runs behind the witnesses.
\<close>

section \<open>Being served\<close>

definition serves :: "nat \<Rightarrow> byte list \<Rightarrow> sys \<Rightarrow> bool" where
  \<comment> \<open>\<open>n\<close> more writes will be accepted and the bytes \<open>bs\<close> will arrive in time.\<close>
  "serves n bs s \<longleftrightarrow>
     os_writes s = replicate n None \<and> fed s \<and> stream s = bs \<and>
     prompt (Some READY_PROBE_TIMEOUT) s \<and> clock_ok READY_TIMEOUT s"

lemma prompt_mono:
  "prompt (Some d) s \<Longrightarrow> d \<le> e \<Longrightarrow> clock_ok e s \<Longrightarrow> prompt (Some e) s"
  unfolding prompt_def clock_ok_def by (simp, meson add_left_mono less_le_trans)

lemma prompt_None [simp]: "prompt None s"
  by (simp add: prompt_def)

lemma serves_prompt:
  assumes "serves n bs s" and "READY_PROBE_TIMEOUT \<le> d" and "d \<le> READY_TIMEOUT"
  shows "prompt (Some d) s"
  using assms clock_ok_mono [of READY_TIMEOUT s d] prompt_mono by (auto simp: serves_def)

lemma prompt_after:
  assumes "prompt (Some e) t" and "evolves s t" and "prompt (Some d) s"
  shows "prompt (Some d) t"
  using assms by (auto simp: prompt_def evolves_def)

lemma serves_execute_with_timeout:
  assumes s: "serves (Suc n) (raw @ rest) s" and "is_frame raw" "parse raw = Inr r"
    "msg_kind r = Response" and d: "READY_PROBE_TIMEOUT \<le> d" "d \<le> READY_TIMEOUT"
  shows "\<exists>t. execute_with_timeout cmd payload m d s = (Inr r, t) \<and> serves n rest t"
proof -
  have "os_writes s = None # replicate n None" "fed s" "stream s = concat [] @ raw @ rest"
    using s by (simp_all add: serves_def)
  moreover have "prompt (Some d) s" using s d by (rule serves_prompt)
  ultimately obtain t where run: "execute_with_timeout cmd payload m d s = (Inr r, t)"
    and t: "stream t = rest" "prompt (Some d) t" "fed t" "os_writes t = replicate n None"
    using execute_answered [of s "replicate n None" d "[]" raw rest "[]" r cmd payload m] assms(2-4)
    by auto
  have st: "evolves s t" using run by (rule request.evolves)
  moreover have "prompt (Some READY_PROBE_TIMEOUT) s" "clock_ok READY_TIMEOUT s"
    using s by (simp_all add: serves_def)
  ultimately have "serves n rest t"
    using t prompt_after [OF t(2) st] evolves_clock_ok [OF st] by (simp add: serves_def)
  with run show ?thesis by blast
qed

lemma timeouts_in_range:
  "READY_PROBE_TIMEOUT \<le> RESPONSE_TIMEOUT" "RESPONSE_TIMEOUT \<le> READY_TIMEOUT"
  "READY_PROBE_TIMEOUT \<le> READY_TIMEOUT"
  by (simp_all add: READY_PROBE_TIMEOUT_def RESPONSE_TIMEOUT_def READY_TIMEOUT_def nanos_def)

definition answer_ok :: "call_id_t \<Rightarrow> byte list \<Rightarrow> codec_value list \<Rightarrow> bool" where
  \<comment> \<open>A body that can be sent in an answer, and its content.\<close>
  "answer_ok c body content \<longleftrightarrow>
     raw_id c < 2000 \<and> decode_values body = Inr content \<and> length body + 26 \<le> MAX_MESSAGE_LEN"

definition answer_message :: "call_id_t \<Rightarrow> byte list \<Rightarrow> codec_value list \<Rightarrow> mode \<Rightarrow> message" where
  "answer_message c body content m =
     \<lparr>msg_tid = request_tid m, msg_kind = Response, msg_code = raw_id c, msg_body = body,
      msg_content = content\<rparr>"

lemma answer_message_simps [simp]:
  "msg_kind (answer_message c body content m) = Response"
  "msg_body (answer_message c body content m) = body"
  "msg_content (answer_message c body content m) = content"
  by (simp_all add: answer_message_def)

lemma answer_parses:
  "answer_ok c body content \<Longrightarrow>
   is_frame (packet c body m) \<and> parse (packet c body m) = Inr (answer_message c body content m)"
  using packet_is_frame [of body c m] parse_packet [of c body content m]
  by (simp add: answer_ok_def answer_message_def MAX_MESSAGE_LEN_def)

lemma serves_execute:
  assumes "serves (Suc n) (packet c body m' @ rest) s" and "answer_ok c body content"
  shows "\<exists>t. execute cmd payload m s = (Inr (answer_message c body content m'), t) \<and> serves n rest t"
  unfolding execute_def
  using assms answer_parses timeouts_in_range by (intro serves_execute_with_timeout) auto

text \<open>Receiving without a deadline polls nothing.\<close>

lemma fill_buffer_None_polls: "fill_buffer None s = (x, t) \<Longrightarrow> os_polls t = os_polls s"
  by (auto simp: fill_buffer_def wait_readable_def read_chunk_def Let_def
      elim!: seq_elim split: list.splits sum.splits if_splits)

lemma read_message_None_polls:
  "read_message_loop deadline s = (x, t) \<Longrightarrow> deadline = None \<Longrightarrow> os_polls t = os_polls s"
proof (induction deadline s arbitrary: x t rule: read_message_loop.induct)
  case (1 deadline s)
  consider (same) "os_polls t = os_polls s"
    | (stop) e where "fill_buffer deadline s = (Inl e, t)"
    | (fill) u where "buffered_frame (inbuf s) = Inr None" "fill_buffer deadline s = (Inr (), u)"
      "read_message_loop deadline u = (x, t)"
    using "1.prems"(1)
    by (subst (asm) read_message_loop.simps)
      (auto split: sum.splits option.splits elim!: seq_elim)
  then show ?case
  proof cases
    case fill
    with "1.IH" [OF fill(1) refl fill(2,3) "1.prems"(2)] "1.prems"(2) show ?thesis
      by (simp add: fill_buffer_None_polls)
  qed (use "1.prems"(2) in \<open>simp_all add: fill_buffer_None_polls\<close>)
qed

lemma serves_recv:
  assumes s: "serves n (raw @ rest) s" and "is_frame raw" "parse raw = Inr r"
  shows "\<exists>t. recv s = (Inr r, t) \<and> serves n rest t"
proof -
  obtain t where run: "recv_inner None s = (Inr r, t)" and t: "stream t = rest" "fed t"
    using recv_inner_fed [of None s raw rest r] assms by (auto simp: serves_def)
  have st: "listens s t" using run by (rule recv_op.listens)
  have polls: "os_polls t = os_polls s"
    using run read_message_None_polls
    by (auto simp: recv_inner_def read_message_def seq_eq_Inr handle_unsolicited_def
        split: option.splits)
  have "serves n rest t"
    using s t st polls
    by (auto simp: serves_def listens_def evolves_def prompt_def clock_ok_def)
  with run show ?thesis unfolding recv_def by blast
qed

section \<open>The operations with a cooperative modem\<close>

lemma serves_tick: "serves n bs (s\<lparr>os_ticks := k\<rparr>) \<longleftrightarrow> serves n bs s"
  by (simp add: serves_def fed_def prompt_def clock_ok_def pending_def)

lemma serves_wait_ready:
  assumes "serves (Suc n) (packet c body m @ rest) s" and "answer_ok c body content"
  shows "\<exists>t. wait_ready s = (Inr (), t) \<and> serves n rest t"
proof -
  let ?s = "s\<lparr>os_ticks := Suc (os_ticks s)\<rparr>"
  have "instant_add (os_clock s (os_ticks s)) READY_TIMEOUT =
      (Inr (os_clock s (os_ticks s) + READY_TIMEOUT) :: (error, nat) res)"
    using assms(1) by (simp add: instant_add_def serves_def clock_ok_def)
  then have "wait_ready s = wait_ready_loop (os_clock s (os_ticks s) + READY_TIMEOUT) ?s"
    by (simp add: wait_ready_def instant_now_def seq_def)
  moreover obtain t where "execute_with_timeout CSI_FCC_LOCK_QUERY_REQ (pack_u32 0) Async
      READY_PROBE_TIMEOUT ?s = (Inr (answer_message c body content m), t)" "serves n rest t"
    using serves_execute_with_timeout [of n "packet c body m" rest ?s] answer_parses [OF assms(2)]
      assms(1) timeouts_in_range by (fastforce simp: serves_tick)
  ultimately show ?thesis by (subst (asm) wait_ready_loop.simps) auto
qed

lemma serves_run_commands:
  "serves (length cs + n) (concat (map (\<lambda>c. packet c body Sync) cs) @ rest) s \<Longrightarrow>
   \<forall>c \<in> set cs. answer_ok c body content \<Longrightarrow>
   \<exists>t. run_commands cs s = (Inr (), t) \<and> serves n rest t"
proof (induction cs arbitrary: s)
  case (Cons c cs)
  from Cons.prems obtain u where "execute c (pack_u32 0) Sync s =
      (Inr (answer_message c body content Sync), u)"
    "serves (length cs + n) (concat (map (\<lambda>c. packet c body Sync) cs) @ rest) u"
    using serves_execute [of "length cs + n" c body Sync] by fastforce
  with Cons.IH [of u] Cons.prems(2) show ?case by (simp add: seq_Inr)
qed simp

lemma serves_initialize:
  assumes "serves (7 + n) (concat (map (\<lambda>c. packet c body Sync) init_commands) @ rest) s"
    and "decode_values body = Inr content" and "length body + 26 \<le> MAX_MESSAGE_LEN"
  shows "\<exists>t. initialize s = (Inr (), t) \<and> serves n rest t"
proof -
  have "serves (length init_commands + n)
      (concat (map (\<lambda>c. packet c body Sync) init_commands) @ rest) s"
    using assms(1) by (simp add: init_commands_def eval_nat_numeral)
  moreover have "\<forall>c \<in> set init_commands. answer_ok c body content"
    using assms(2,3) by (auto simp: init_commands_def answer_ok_def command_defs)
  ultimately show ?thesis unfolding initialize_def by (rule serves_run_commands)
qed

lemma serves_fcc_unlocked:
  assumes "serves (Suc n) (packet c body m @ rest) s" and "answer_ok c body content"
    and "unpack ''nnn'' body = Inr [a, ValInt st, ValInt lock_mode]" and "lock_mode = 0 \<or> st \<noteq> 0"
  shows "\<exists>t. fcc_unlock sha256 s = (Inr (), t) \<and> serves n rest t"
  using serves_execute [OF assms(1,2), of CSI_FCC_LOCK_QUERY_REQ "pack_u32 0" Async] assms(3,4)
  by (auto simp: fcc_unlock_def seq_Inr int_at_def slice_get_def)

lemma serves_fcc_locked:
  assumes "serves (Suc (Suc (Suc n))) (packet c1 b1 m1 @ packet c2 b2 m2 @ packet c3 b3 m3 @ rest) s"
    and ok: "answer_ok c1 b1 v1" "answer_ok c2 b2 v2" "answer_ok c3 b3 v3"
    and "unpack ''nnn'' b1 = Inr [a, ValInt 0, ValInt lock_mode]" and "lock_mode \<noteq> 0"
    and "unpack ''nn'' b2 = Inr [b, ValInt challenge]" and "unpack ''n'' b3 = Inr [ValInt verdict]"
    and "4 \<le> length (sha256 (to_le32 challenge @ FCC_UNLOCK_KEY))"
  shows "\<exists>t. fcc_unlock sha256 s =
      (if verdict = 1 then Inr () else Inl (Err FccUnlock), t) \<and> serves n rest t"
proof -
  let ?answer = "from_le32 (take 4 (sha256 (to_le32 challenge @ FCC_UNLOCK_KEY)))"
  obtain u where u: "execute CSI_FCC_LOCK_QUERY_REQ (pack_u32 0) Async s =
      (Inr (answer_message c1 b1 v1 m1), u)"
      "serves (Suc (Suc n)) (packet c2 b2 m2 @ packet c3 b3 m3 @ rest) u"
    using serves_execute [OF assms(1) ok(1)] by blast
  obtain v where v: "execute CSI_FCC_LOCK_GEN_CHALLENGE_REQ (pack_u32 0) Async u =
      (Inr (answer_message c2 b2 v2 m2), v)" "serves (Suc n) (packet c3 b3 m3 @ rest) v"
    using serves_execute [OF u(2) ok(2)] by blast
  obtain t where t: "execute CSI_FCC_LOCK_VER_CHALLENGE_REQ (pack_u32 ?answer) Async v =
      (Inr (answer_message c3 b3 v3 m3), t)" "serves n rest t"
    using serves_execute [OF v(2) ok(3)] by blast
  show ?thesis
    using u(1) v(1) t assms(5-9)
    by (auto simp: fcc_unlock_def fcc_challenge_def seq_Inr int_at_def slice_get_def digest_answer_def)
qed

lemma serves_set_mode:
  assumes s: "serves (Suc n) (packet c body m' @ raw @ rest) s" and ok: "answer_ok c body (ValInt 0 # vs)"
    and raw: "is_frame raw" "parse raw = Inr ind" "msg_code ind = UTA_MODE_SET_RSP_CB"
      "msg_content ind = ValInt m # ws"
  shows "\<exists>t. set_mode m s = (Inr (), t) \<and> serves n rest t"
proof -
  obtain u where u: "execute UTA_MODE_SET_REQ (asn_int 0 @ asn_int MODE_TID @ asn_int m) Sync s =
      (Inr (answer_message c body (ValInt 0 # vs) m'), u)" "serves n (raw @ rest) u"
    using serves_execute [OF s ok] by blast
  obtain t where t: "recv u = (Inr ind, t)" "serves n rest t"
    using serves_recv [OF u(2) raw(1,2)] by blast
  have "set_mode_loop m u = (Inr (), t)"
    using t(1) raw(3,4) by (subst set_mode_loop.simps) (simp add: seq_Inr int_at_def slice_get_def)
  with u(1) t(2) show ?thesis
    by (auto simp: set_mode_def mode_request seq_Inr int_at_def slice_get_def)
qed

lemma serves_firmware_version:
  assumes "serves (Suc n) (packet c body m @ rest) s" and "answer_ok c body content"
  shows "\<exists>x t. firmware_version s = (x, t) \<and> x \<noteq> Inl Panic \<and> x \<noteq> Inl Blocked \<and> serves n rest t"
proof -
  have "parse_sys_info body \<noteq> Inl Blocked"
    using unpack_clean by (auto simp: parse_sys_info_def rbind_def ok_or_def split: sum.splits option.splits)
  then show ?thesis
    using serves_execute [OF assms, of UTA_SYS_GET_INFO "info_payload 0" Sync] parser_clean(3) [of body]
    by (cases "parse_sys_info body")
      (auto simp: firmware_version_def builder_payloads seq_Inr from_codec_def)
qed

lemma serves_attach_status:
  assumes "serves (Suc n) (packet c body m @ rest) s" and "answer_ok c body content"
    and "unpack ''nn'' body = Inr [a, ValInt st]"
  shows "\<exists>t. attach_status s = (Inr st, t) \<and> serves n rest t"
  using serves_execute [OF assms(1,2), of UTA_MS_NET_ATTACH_REQ attach_payload Async] assms(3)
  by (auto simp: attach_status_def builder_payloads seq_Inr int_at_def slice_get_def)

lemma serves_attach:
  assumes "serves (Suc (Suc n)) (packet c1 b1 m1 @ packet c2 b2 m2 @ rest) s"
    and "answer_ok c1 b1 v1" "answer_ok c2 b2 v2" and "unpack ''nn'' b2 = Inr [a, ValInt st]"
    and "st \<noteq> 0xffffffff" and "length apn \<le> APN_MAX_LEN"
  shows "\<exists>t. attach apn s = (Inr True, t) \<and> serves n rest t"
proof -
  obtain u where u: "execute UTA_MS_CALL_PS_ATTACH_APN_CONFIG_REQ
      (layout apn_specs (apn_args (padded_apn apn))) Async s = (Inr (answer_message c1 b1 v1 m1), u)"
      "serves (Suc n) (packet c2 b2 m2 @ rest) u"
    using serves_execute [OF assms(1,2)] by blast
  obtain t where t: "attach_status u = (Inr st, t)" "serves n rest t"
    using serves_attach_status [OF u(2) assms(3,4)] by blast
  with u(1) assms(5) show ?thesis
    by (auto simp: attach_def attach_config_layout [OF assms(6)] attach_retry_def seq_Inr)
qed

lemma serves_query_ip:
  assumes "serves (Suc (Suc n)) (packet c1 b1 m1 @ packet c2 b2 m2 @ rest) s"
    and "answer_ok c1 b1 v1" "answer_ok c2 b2 v2"
    and "parse_neg_ip b1 = Inr [a, b, c]" and "parse_dns b2 = Inr dns"
  shows "\<exists>t. query_ip s = (Inr (map_option (\<lambda>address. (address, dns)) (pick_address a b c)), t) \<and>
    serves n rest t"
proof -
  obtain u where u: "execute UTA_MS_CALL_PS_GET_NEG_IP_ADDR_REQ query_payload Async s =
      (Inr (answer_message c1 b1 v1 m1), u)" "serves (Suc n) (packet c2 b2 m2 @ rest) u"
    using serves_execute [OF assms(1,2)] by blast
  obtain t where t: "execute UTA_MS_CALL_PS_GET_NEGOTIATED_DNS_REQ query_payload Async u =
      (Inr (answer_message c2 b2 v2 m2), t)" "serves n rest t"
    using serves_execute [OF u(2) assms(3)] by blast
  with u(1) assms(4,5) show ?thesis
    by (auto simp: query_ip_def builder_payloads seq_Inr pick_address_def)
qed

lemma serves_wait_for_ip:
  assumes "serves (Suc (Suc n)) (packet c1 b1 m1 @ packet c2 b2 m2 @ rest) s"
    and "answer_ok c1 b1 v1" "answer_ok c2 b2 v2"
    and "parse_neg_ip b1 = Inr [a, b, c]" and "parse_dns b2 = Inr dns"
    and "pick_address a b c = Some address" and "clock_ok timeout s"
  shows "\<exists>t. wait_for_ip timeout interval s = (Inr (Some (address, dns)), t) \<and> serves n rest t"
proof -
  let ?s = "s\<lparr>os_ticks := Suc (os_ticks s)\<rparr>"
  obtain t where "query_ip ?s = (Inr (Some (address, dns)), t)" "serves n rest t"
    using serves_query_ip [of n c1 b1 m1 c2 b2 m2 rest ?s, OF _ assms(2-5)] assms(1,6)
    by (auto simp: serves_tick)
  moreover have "instant_add (os_clock s (os_ticks s)) timeout =
      (Inr (os_clock s (os_ticks s) + timeout) :: (error, nat) res)"
    using assms(7) by (simp add: instant_add_def clock_ok_def)
  ultimately show ?thesis
    by (simp add: wait_for_ip_def instant_now_def seq_def wait_for_ip_loop.simps [of _ _ ?s])
qed

lemma serves_open_data_channel:
  assumes "serves (Suc (Suc (Suc n))) (packet c1 b1 m1 @ packet c2 b2 m2 @ packet c3 b3 m3 @ rest) s"
    and ok: "answer_ok c1 b1 v1" "answer_ok c2 b2 v2" "answer_ok c3 b3 v3"
    and "6 \<le> length b1" and path: "length path \<le> 23"
  shows "\<exists>t. open_data_channel path s = (Inr (), t) \<and> serves n rest t"
proof -
  obtain u where u: "execute UTA_MS_CALL_PS_CONNECT_REQ connect_payload Async s =
      (Inr (answer_message c1 b1 v1 m1), u)" "serves (Suc (Suc n)) (packet c2 b2 m2 @ packet c3 b3 m3 @ rest) u"
    using serves_execute [OF assms(1) ok(1)] by blast
  obtain v where v: "execute UTA_RPC_PS_CONNECT_TO_DATACHANNEL_REQ (channel_payload path) Sync u =
      (Inr (answer_message c2 b2 v2 m2), v)" "serves (Suc n) (packet c3 b3 m3 @ rest) v"
    using serves_execute [OF u(2) ok(2)] by blast
  obtain t where t: "execute UTA_RPC_PS_CONNECT_SETUP_REQ (take (length b1 - 6) b1 @ b2 @ asn_int 0)
      Sync v = (Inr (answer_message c3 b3 v3 m3), t)" "serves n rest t"
    using serves_execute [OF v(2) ok(3)] by blast
  have "connect_to_datachannel path = Inr (channel_payload path)"
    using connect_to_datachannel_fits [OF path] by (simp add: channel_payload_def)
  with u(1) v(1) t assms(5) show ?thesis
    by (auto simp: open_data_channel_def builder_payloads seq_Inr Let_def)
qed

section \<open>Concrete answers\<close>

definition ints :: "u32 list \<Rightarrow> byte list" where
  "ints vs = concat (map asn_int vs)"

lemma length_ints [simp]: "length (ints vs) = 6 * length vs"
  by (induction vs) (simp_all add: ints_def)

lemma layout_ints: "layout (map (\<lambda>_. L32) vs) (map ArgInt vs) = ints vs"
  by (induction vs) (simp_all add: ints_def asn_int_int_bytes)

lemma sendable_ints:
  assumes "6 * length vs \<le> isize_max"
  shows "sendable (map (\<lambda>_. L32) vs) (map ArgInt vs)"
  using assms
  by (auto simp: sendable_def layout_ints elem_width_def list_all2_conv_all_nth)

lemma readable_ints: "all_readable (map (\<lambda>_. L32) vs) (map ArgInt vs)"
  by (simp add: all_readable_def list_all2_conv_all_nth)

lemma view_ints: "map2 spec_view (map (\<lambda>_. L32) vs) (map ArgInt vs) = map ValInt vs"
  by (induction vs) (simp_all add: take_bit_word_eq_self)

lemma ints_decode:
  assumes "6 * length vs \<le> isize_max"
  shows "decode_values (ints vs) = Inr (map ValInt vs)"
    and "unpack (replicate (length vs) (CHR ''n'')) (ints vs) = Inr (map ValInt vs)"
proof -
  note [simp del] = map_replicate_const
  show "decode_values (ints vs) = Inr (map ValInt vs)"
    using decode_values_layout [OF sendable_ints [OF assms] readable_ints]
    unfolding layout_ints view_ints .
  show "unpack (replicate (length vs) (CHR ''n'')) (ints vs) = Inr (map ValInt vs)"
    using unpack_layout [OF sendable_ints [OF assms] readable_ints, of "[]"] assms
    unfolding layout_ints view_ints by (simp add: comp_def map_replicate_const)
qed

lemma ints_ok:
  "raw_id c < 2000 \<Longrightarrow> length vs < 1000 \<Longrightarrow> answer_ok c (ints vs) (map ValInt vs)"
  using ints_decode(1) [of vs] by (simp add: answer_ok_def MAX_MESSAGE_LEN_def)

text \<open>
  Answers with an address field and with name servers: every field by its specification.
\<close>

lemma layout_answer:
  assumes "sendable sps args" and "all_readable sps args" and "raw_id c < 2000"
    and "length (layout sps args) + 26 \<le> MAX_MESSAGE_LEN"
  shows "answer_ok c (layout sps args) (map2 spec_view sps args)"
    and "unpack (map spec_kind sps) (layout sps args) = Inr (map2 spec_view sps args)"
  using decode_values_layout [OF assms(1,2)] unpack_layout [OF assms(1,2), of "[]"] assms
  by (simp_all add: answer_ok_def MAX_MESSAGE_LEN_def)

definition ip_specs :: "spec list" where
  "ip_specs = [L32, ByteStr 12, L32, L32, L32, L32]"

definition ip_args :: "byte list \<Rightarrow> arg list" where
  "ip_args addresses =
     [ArgInt 0, ArgBytes addresses, ArgInt 0, ArgInt 0, ArgInt 0, ArgInt 0]"

definition dns_specs :: "spec list" where
  "dns_specs = L32 # concat (replicate 16 [ByteStr 4, L32]) @ [L32, ByteStr 4, L32, L32, L32, L32]"

definition dns_args :: "byte list \<Rightarrow> arg list" where
  \<comment> \<open>One name server, fifteen empty slots.\<close>
  "dns_args server =
     ArgInt 0 # [ArgBytes server, ArgInt 1] @ concat (replicate 15 [ArgBytes [], ArgInt 0])
       @ [ArgInt 0, ArgBytes [], ArgInt 0, ArgInt 0, ArgInt 0, ArgInt 0]"

abbreviation ip_body :: "byte list \<Rightarrow> byte list" where
  "ip_body addresses \<equiv> layout ip_specs (ip_args addresses)"

abbreviation dns_body :: "byte list \<Rightarrow> byte list" where
  "dns_body server \<equiv> layout dns_specs (dns_args server)"

lemma ip_answer:
  assumes "length addresses = 12" and "raw_id c < 2000"
  shows "\<exists>content. answer_ok c (ip_body addresses) content"
    and "parse_neg_ip (ip_body addresses) =
      Inr [ipv4_at addresses 0, ipv4_at addresses 4, ipv4_at addresses 8]"
proof -
  note eval = ip_specs_def ip_args_def
  have ok: "sendable ip_specs (ip_args addresses)" "all_readable ip_specs (ip_args addresses)"
    "length (ip_body addresses) + 26 \<le> MAX_MESSAGE_LEN"
    using assms by (simp_all add: eval sendable_def all_readable_def fits_def readable_byte
        length_string_bytes length_field_def int_bytes_def MAX_MESSAGE_LEN_def elem_width_def)
  note answer = layout_answer [OF ok(1,2) assms(2) ok(3)]
  from answer(1) show "\<exists>content. answer_ok c (ip_body addresses) content" by blast
  from answer(2) assms(1) show "parse_neg_ip (ip_body addresses) =
      Inr [ipv4_at addresses 0, ipv4_at addresses 4, ipv4_at addresses 8]"
    by (simp add: parse_neg_ip_eq eval)
qed

lemma list_all2_repeat:
  "list_all2 P xs ys \<Longrightarrow> list_all2 P (concat (replicate n xs)) (concat (replicate n ys))"
  by (induction n) (simp_all add: list_all2_appendI)

lemma length_repeat: "length (concat (replicate n xs)) = n * length xs"
  by (induction n) simp_all

lemma layout_repeat:
  "length sps = length args \<Longrightarrow>
   layout (concat (replicate n sps)) (concat (replicate n args)) =
     concat (replicate n (layout sps args))"
  by (induction n) (simp_all add: layout_append)

lemma map2_repeat:
  "length xs = length ys \<Longrightarrow>
   map2 f (concat (replicate n xs)) (concat (replicate n ys)) = concat (replicate n (map2 f xs ys))"
  by (induction n) simp_all

lemma dns_shape:
  "dns_specs = [L32, ByteStr 4, L32] @ concat (replicate 15 [ByteStr 4, L32]) @
     [L32, ByteStr 4, L32, L32, L32, L32]"
  "dns_args server = [ArgInt 0, ArgBytes server, ArgInt 1] @
     concat (replicate 15 [ArgBytes [], ArgInt 0]) @
     [ArgInt 0, ArgBytes [], ArgInt 0, ArgInt 0, ArgInt 0, ArgInt 0]"
  by (simp_all add: dns_specs_def dns_args_def eval_nat_numeral)

lemma dns_body_ok:
  assumes "length server = 4"
  shows "sendable dns_specs (dns_args server)" "all_readable dns_specs (dns_args server)"
    "length (dns_body server) + 26 \<le> MAX_MESSAGE_LEN"
proof -
  have len: "length (dns_body server) = 438"
    unfolding dns_shape using assms
    by (simp add: layout_append layout_repeat length_repeat length_string_bytes length_field_def
        int_bytes_def)
  then show "length (dns_body server) + 26 \<le> MAX_MESSAGE_LEN" by (simp add: MAX_MESSAGE_LEN_def)
  have "list_all2 arg_ok dns_specs (dns_args server)"
    unfolding dns_shape using assms
    by (intro list_all2_appendI list_all2_repeat) (simp_all add: fits_def)
  then show "sendable dns_specs (dns_args server)"
    using len by (simp add: sendable_def) (simp add: dns_shape elem_width_def)
  show "all_readable dns_specs (dns_args server)"
    unfolding dns_shape all_readable_def using assms
    by (intro list_all2_appendI list_all2_repeat) (simp_all add: readable_byte)
qed

lemma dns_answer:
  assumes "length server = 4" and "raw_id c < 2000"
  shows "\<exists>content. answer_ok c (dns_body server) content"
    and "parse_dns (dns_body server) = Inr \<lparr>dns_v4 = [ipv4_at server 0], dns_v6 = []\<rparr>"
proof -
  note ok = dns_body_ok [OF assms(1)]
  note answer = layout_answer [OF ok(1,2) assms(2) ok(3)]
  from answer(1) show "\<exists>content. answer_ok c (dns_body server) content" by blast
  have "map spec_kind dns_specs = dns_format"
    by (simp add: dns_shape dns_format_def map_concat eval_nat_numeral)
  moreover have "map2 spec_view dns_specs (dns_args server) =
      ValInt 0 # slot_values ((1, server) # replicate 15 (0, [])) @
        [ValInt 0, ValBytes [], ValInt 0, ValInt 0, ValInt 0, ValInt 0]"
    unfolding dns_shape by (simp add: map2_repeat length_repeat slot_values_def take_bit_word_eq_self)
  ultimately have "unpack dns_format (dns_body server) =
      Inr (ValInt 0 # slot_values ((1, server) # replicate 15 (0, [])) @
        [ValInt 0, ValBytes [], ValInt 0, ValInt 0, ValInt 0, ValInt 0])"
    using answer(2) by (simp only:)
  moreover have "v4_servers (replicate n (0, [])) = []" "v6_servers (replicate n (0, [])) = []" for n
    by (induction n) simp_all
  ultimately show "parse_dns (dns_body server) = Inr \<lparr>dns_v4 = [ipv4_at server 0], dns_v6 = []\<rparr>"
    using dns_loop_slots [of "[ValInt 0]" 0 "(1, server) # replicate 15 (0, [])"] assms(1)
    by (simp add: parse_dns_def)
qed

end
