(* ===== verification/Settings.thy ===== *)
theory Settings
  imports Errors
begin

text \<open>
  \<open>src/src/config.rs\<close>: the command line, the configuration file and how they are merged.

  Command-line parsing (the \<open>palc\<close> crate) is not modelled: \<open>cli\<close> is what it returns.  The TOML
  parser with \<open>serde\<close> is the parameter \<open>parse_toml\<close>, the error of which is its message.  The file
  system and the working directory are the parameter \<open>env\<close>.  A path is its text; a \<open>u32\<close> field is a
  word and a number of seconds (\<open>u64\<close>) a word of 64 bits.  A duration is in nanoseconds.
\<close>

section \<open>Defaults\<close>

definition DEFAULT_RPC_PORT :: string where "DEFAULT_RPC_PORT = ''/dev/wwan0xmmrpc0''"
definition DEFAULT_INTERFACE :: string where "DEFAULT_INTERFACE = ''wwan0''"
definition DEFAULT_METRIC :: u32 where "DEFAULT_METRIC = 1000"
definition DEFAULT_FETCH_INTERVAL_SECS :: "64 word" where "DEFAULT_FETCH_INTERVAL_SECS = 1"
definition DEFAULT_WAIT_SECS :: "64 word" where "DEFAULT_WAIT_SECS = 120"
definition DEFAULT_DATACHANNEL :: string where "DEFAULT_DATACHANNEL = ''/sioscc/PCIE/IOSM/IPS/0''"
definition DEFAULT_RESOLV_CONF :: string where "DEFAULT_RESOLV_CONF = ''/etc/resolv.conf''"

lemmas default_defs =
  DEFAULT_RPC_PORT_def DEFAULT_INTERFACE_def DEFAULT_METRIC_def DEFAULT_FETCH_INTERVAL_SECS_def
  DEFAULT_WAIT_SECS_def DEFAULT_DATACHANNEL_def DEFAULT_RESOLV_CONF_def

section \<open>The sources of a setting\<close>

record cli =
  cli_config :: "string option"
  cli_apn :: "string option"
  cli_interface :: "string option"
  cli_rpc_port :: "string option"
  cli_default_route :: "bool option"
  cli_metric :: "u32 option"
  cli_ip_fetch_interval :: "64 word option"
  cli_ip_wait :: "64 word option"
  cli_write_resolv :: "bool option"
  cli_resolv_conf :: "string option"
  cli_datachannel_path :: "string option"
  cli_version :: bool

record file_config =
  fc_apn :: "string option"
  fc_interface :: "string option"
  fc_rpc_port :: "string option"
  fc_default_route :: "bool option"
  fc_metric :: "u32 option"
  fc_ip_fetch_interval :: "64 word option"
  fc_ip_wait :: "64 word option"
  fc_write_resolv :: "bool option"
  fc_resolv_conf :: "string option"
  fc_datachannel_path :: "string option"

record settings =
  set_apn :: string
  set_interface :: string
  set_rpc_port :: string
  set_default_route :: bool
  set_metric :: u32
  set_ip_fetch_interval :: nat
  set_ip_wait :: nat
  set_write_resolv :: bool
  set_resolv_conf :: string
  set_datachannel_path :: string

record env =
  env_cwd :: "string option"
  env_exists :: "string \<Rightarrow> bool"
  env_read :: "string \<Rightarrow> io_error + string"
  env_rust_log :: "string option"

type_synonym toml_parser = "string \<Rightarrow> string + file_config"

definition default_file_config :: file_config where
  \<comment> \<open>\<open>FileConfig::default()\<close>\<close>
  "default_file_config =
     \<lparr>fc_apn = None, fc_interface = None, fc_rpc_port = None, fc_default_route = None,
      fc_metric = None, fc_ip_fetch_interval = None, fc_ip_wait = None, fc_write_resolv = None,
      fc_resolv_conf = None, fc_datachannel_path = None\<rparr>"

section \<open>The standard library\<close>

definition or_else :: "'a option \<Rightarrow> 'a option \<Rightarrow> 'a option" where
  \<comment> \<open>\<open>Option::or\<close>\<close>
  "or_else a b = (case a of Some x \<Rightarrow> Some x | None \<Rightarrow> b)"

definition unwrap_or :: "'a \<Rightarrow> 'a option \<Rightarrow> 'a" where
  "unwrap_or d a = (case a of Some x \<Rightarrow> x | None \<Rightarrow> d)"

definition option_filter :: "('a \<Rightarrow> bool) \<Rightarrow> 'a option \<Rightarrow> 'a option" where
  "option_filter P a = (case a of Some x \<Rightarrow> if P x then Some x else None | None \<Rightarrow> None)"

definition path_join :: "string \<Rightarrow> string \<Rightarrow> string" where
  \<comment> \<open>\<open>Path::join\<close> with a relative path.\<close>
  "path_join p q = (if p = [] \<or> last p = CHR ''/'' then p @ q else p @ ''/'' @ q)"

definition from_secs :: "64 word \<Rightarrow> nat" where
  \<comment> \<open>\<open>Duration::from_secs\<close>\<close>
  "from_secs secs = unat secs * 1000000000"

lemma or_else_simps [simp]: "or_else (Some x) b = Some x" "or_else None b = b"
  by (simp_all add: or_else_def)

lemma unwrap_or_simps [simp]: "unwrap_or d (Some x) = x" "unwrap_or d None = d"
  by (simp_all add: unwrap_or_def)

lemma option_filter_simps [simp]:
  "option_filter P None = None"
  "option_filter P (Some x) = (if P x then Some x else None)"
  by (simp_all add: option_filter_def)

section \<open>Reading the configuration file\<close>

definition default_config_paths :: "env \<Rightarrow> string list" where
  "default_config_paths e =
     (case env_cwd e of None \<Rightarrow> [] | Some cwd \<Rightarrow> [path_join cwd ''xmmrpc.toml''])
       @ [''/etc/xmmrpc.toml'']"

definition read_config :: "toml_parser \<Rightarrow> env \<Rightarrow> string \<Rightarrow> (error, file_config) res" where
  "read_config parse_toml e path =
     (case env_read e path of
        Inl source \<Rightarrow> Inl (Err (Config (''cannot read '' @ path @ '': '' @ source)))
      | Inr content \<Rightarrow>
          (case parse_toml content of
             Inl source \<Rightarrow> Inl (Err (Config (''invalid TOML in '' @ path @ '': '' @ source)))
           | Inr file \<Rightarrow> Inr file))"

primrec load_candidates ::
    "toml_parser \<Rightarrow> env \<Rightarrow> string list \<Rightarrow> (error, file_config) res" where
  \<comment> \<open>The \<open>for candidate in default_config_paths()\<close> loop of \<open>load_file\<close>.\<close>
  "load_candidates parse_toml e [] = Inr default_file_config"
| "load_candidates parse_toml e (candidate # rest) =
     (if env_exists e candidate then read_config parse_toml e candidate
      else load_candidates parse_toml e rest)"

definition load_file :: "toml_parser \<Rightarrow> env \<Rightarrow> string option \<Rightarrow> (error, file_config) res" where
  "load_file parse_toml e explicit =
     (case explicit of
        Some path \<Rightarrow> read_config parse_toml e path
      | None \<Rightarrow> load_candidates parse_toml e (default_config_paths e))"

section \<open>Merging\<close>

definition quote_char :: char where "quote_char = char_of (34 :: nat)"

definition no_apn_message :: string where
  "no_apn_message =
     ''no APN configured (pass --apn or set `apn = '' @ [quote_char] @ ''...'' @ [quote_char]
       @ ''` in the config file)''"

definition resolve_with :: "cli \<Rightarrow> file_config \<Rightarrow> (error, settings) res" where
  \<comment> \<open>\<open>Settings::resolve\<close> after \<open>load_file\<close>.\<close>
  "resolve_with c file =
     rbind (ok_or (Config no_apn_message)
              (option_filter (\<lambda>apn. apn \<noteq> []) (or_else (cli_apn c) (fc_apn file)))) (\<lambda>apn.
     Inr \<lparr>set_apn = apn,
       set_interface = unwrap_or DEFAULT_INTERFACE (or_else (cli_interface c) (fc_interface file)),
       set_rpc_port = unwrap_or DEFAULT_RPC_PORT (or_else (cli_rpc_port c) (fc_rpc_port file)),
       set_default_route =
         unwrap_or True (or_else (cli_default_route c) (fc_default_route file)),
       set_metric = unwrap_or DEFAULT_METRIC (or_else (cli_metric c) (fc_metric file)),
       set_ip_fetch_interval =
         from_secs (unwrap_or DEFAULT_FETCH_INTERVAL_SECS
           (or_else (cli_ip_fetch_interval c) (fc_ip_fetch_interval file))),
       set_ip_wait =
         from_secs (unwrap_or DEFAULT_WAIT_SECS (or_else (cli_ip_wait c) (fc_ip_wait file))),
       set_write_resolv = unwrap_or True (or_else (cli_write_resolv c) (fc_write_resolv file)),
       set_resolv_conf =
         unwrap_or DEFAULT_RESOLV_CONF (or_else (cli_resolv_conf c) (fc_resolv_conf file)),
       set_datachannel_path =
         unwrap_or DEFAULT_DATACHANNEL
           (or_else (cli_datachannel_path c) (fc_datachannel_path file))\<rparr>)"

definition resolve :: "toml_parser \<Rightarrow> env \<Rightarrow> cli \<Rightarrow> (error, settings) res" where
  "resolve parse_toml e c =
     rbind (load_file parse_toml e (cli_config c)) (\<lambda>file. resolve_with c file)"

section \<open>Which source wins\<close>

lemma or_else_assoc: "or_else (or_else a b) c = or_else a (or_else b c)"
  by (cases a) simp_all

lemma load_candidates_find:
  "load_candidates parse_toml e ps =
     (case find (env_exists e) ps of
        None \<Rightarrow> Inr default_file_config
      | Some p \<Rightarrow> read_config parse_toml e p)"
  by (induction ps) simp_all

lemma read_config_clean:
  "read_config parse_toml e p \<noteq> Inl Panic" "read_config parse_toml e p \<noteq> Inl Blocked"
  by (simp_all add: read_config_def split: sum.splits)

lemma load_file_clean:
  "load_file parse_toml e x \<noteq> Inl Panic" "load_file parse_toml e x \<noteq> Inl Blocked"
  using read_config_clean
  by (simp_all add: load_file_def load_candidates_find split: option.splits)

lemma resolve_with_ok:
  "resolve_with c file = Inr s \<Longrightarrow>
   or_else (cli_apn c) (fc_apn file) = Some (set_apn s) \<and> set_apn s \<noteq> []"
  by (auto simp: resolve_with_def rbind_eq_Inr ok_or_eq_Inr option_filter_def
      split: option.splits if_splits)

section \<open>Layers\<close>

text \<open>
  The merge as one overlay of three layers of the same type: command line, file and defaults.
\<close>

definition overlay :: "file_config \<Rightarrow> file_config \<Rightarrow> file_config" where
  "overlay a b =
     \<lparr>fc_apn = or_else (fc_apn a) (fc_apn b),
      fc_interface = or_else (fc_interface a) (fc_interface b),
      fc_rpc_port = or_else (fc_rpc_port a) (fc_rpc_port b),
      fc_default_route = or_else (fc_default_route a) (fc_default_route b),
      fc_metric = or_else (fc_metric a) (fc_metric b),
      fc_ip_fetch_interval = or_else (fc_ip_fetch_interval a) (fc_ip_fetch_interval b),
      fc_ip_wait = or_else (fc_ip_wait a) (fc_ip_wait b),
      fc_write_resolv = or_else (fc_write_resolv a) (fc_write_resolv b),
      fc_resolv_conf = or_else (fc_resolv_conf a) (fc_resolv_conf b),
      fc_datachannel_path = or_else (fc_datachannel_path a) (fc_datachannel_path b)\<rparr>"

definition cli_layer :: "cli \<Rightarrow> file_config" where
  "cli_layer c =
     \<lparr>fc_apn = cli_apn c, fc_interface = cli_interface c, fc_rpc_port = cli_rpc_port c,
      fc_default_route = cli_default_route c, fc_metric = cli_metric c,
      fc_ip_fetch_interval = cli_ip_fetch_interval c, fc_ip_wait = cli_ip_wait c,
      fc_write_resolv = cli_write_resolv c, fc_resolv_conf = cli_resolv_conf c,
      fc_datachannel_path = cli_datachannel_path c\<rparr>"

definition default_layer :: file_config where
  "default_layer =
     \<lparr>fc_apn = None, fc_interface = Some ''wwan0'', fc_rpc_port = Some ''/dev/wwan0xmmrpc0'',
      fc_default_route = Some True, fc_metric = Some 1000, fc_ip_fetch_interval = Some 1,
      fc_ip_wait = Some 120, fc_write_resolv = Some True, fc_resolv_conf = Some ''/etc/resolv.conf'',
      fc_datachannel_path = Some ''/sioscc/PCIE/IOSM/IPS/0''\<rparr>"

definition settings_of :: "file_config \<Rightarrow> settings option" where
  \<comment> \<open>The settings a complete layer stands for; an empty APN is no APN.\<close>
  "settings_of l =
     Option.bind (fc_apn l) (\<lambda>apn. Option.bind (fc_interface l) (\<lambda>interface.
     Option.bind (fc_rpc_port l) (\<lambda>port. Option.bind (fc_default_route l) (\<lambda>route.
     Option.bind (fc_metric l) (\<lambda>metric. Option.bind (fc_ip_fetch_interval l) (\<lambda>interval.
     Option.bind (fc_ip_wait l) (\<lambda>wait. Option.bind (fc_write_resolv l) (\<lambda>resolv.
     Option.bind (fc_resolv_conf l) (\<lambda>conf. Option.bind (fc_datachannel_path l) (\<lambda>path.
     if apn = [] then None
     else Some \<lparr>set_apn = apn, set_interface = interface, set_rpc_port = port,
       set_default_route = route, set_metric = metric,
       set_ip_fetch_interval = unat interval * 10 ^ 9, set_ip_wait = unat wait * 10 ^ 9,
       set_write_resolv = resolv, set_resolv_conf = conf, set_datachannel_path = path\<rparr>))))))))))"

lemma overlay_assoc: "overlay (overlay a b) c = overlay a (overlay b c)"
  by (simp add: overlay_def or_else_assoc)

lemma or_else_None [simp]: "or_else a None = a"
  by (cases a) simp_all

lemma or_else_default: "or_else a (or_else b (Some d)) = Some (unwrap_or d (or_else a b))"
  by (cases a; cases b) simp_all

section \<open>Properties\<close>

text \<open>C30: Every setting comes from the first of command line, configuration file and defaults that has
  it: resolving is the overlay of the three layers.  The one setting without a default is the APN, and
  an empty APN from the command line is an error, it does not fall back to the file.\<close>

theorem settings_precedence:
  "resolve parse_toml e c =
     (case load_file parse_toml e (cli_config c) of
        Inl err \<Rightarrow> Inl err
      | Inr fc \<Rightarrow>
          (case settings_of (overlay (cli_layer c) (overlay fc default_layer)) of
             None \<Rightarrow> Inl (Err (Config no_apn_message))
           | Some st \<Rightarrow> Inr st))"
proof -
  have "resolve_with c fc =
      (case settings_of (overlay (cli_layer c) (overlay fc default_layer)) of
         None \<Rightarrow> Inl (Err (Config no_apn_message)) | Some st \<Rightarrow> Inr st)" for fc
    by (cases "or_else (cli_apn c) (fc_apn fc)")
      (simp_all add: resolve_with_def settings_of_def overlay_def cli_layer_def default_layer_def
        or_else_default default_defs ok_or_def from_secs_def)
  then show ?thesis
    by (simp add: resolve_def rbind_def split: sum.split)
qed

end
