(* ===== verification/Bringup.thy ===== *)
theory Bringup
  imports Peer Settings
begin

text \<open>
  The properties of the operations of \<open>src/src/modem.rs\<close>, each with a concrete conversation.
\<close>

section \<open>Conversations\<close>

lemma peer_serves: "bs \<noteq> [] \<Longrightarrow> serves n bs (peer_sys n bs)"
  using peer_sys_facts(2) [of bs n] peer_sys_facts(5) [of n bs] peer_sys_facts(3) [of READY_PROBE_TIMEOUT n bs]
  by (simp add: serves_def peer_sys_facts(1) READY_PROBE_TIMEOUT_def READY_TIMEOUT_def nanos_def)
    (simp add: peer_sys_def)

lemma silent_recv:
  assumes "fed s" and "stream s = []"
  shows "fst (recv s) = Inl Blocked"
proof -
  obtain t where "read_message None s = (fst (next_frame (stream s)), t)"
    using read_message_fed [of None s] assms(1) by auto
  moreover have "next_frame [] = (Inl Blocked, [])"
    by (simp add: next_frame_def buffered_frame_def)
  ultimately show ?thesis
    using assms(2) by (simp add: recv_def recv_inner_def seq_Inl)
qed

lemma wait_for_ip_overflow:
  assumes "\<not> (os_clock s (os_ticks s) + timeout) div nanos 1 \<le> 2 ^ 63 - 1"
  shows "fst (wait_for_ip timeout interval s) = Inl Panic"
    "sent (snd (wait_for_ip timeout interval s)) = sent s"
  using assms
  by (simp_all add: wait_for_ip_def instant_now_def instant_add_def seq_def del: One_nat_def)

lemma wait_for_ip_loop_calm:
  "clock_ok READY_TIMEOUT s \<Longrightarrow> fst (wait_for_ip_loop d i s) \<noteq> Inl Panic"
proof (induction d i s rule: wait_for_ip_loop.induct)
  case (1 d i s)
  obtain y u where run: "query_ip s = (y, u)" by force
  note quiet = query_op.no_panic [OF "1.prems"]
  define v where "v = log_call (OsSleep i) (u\<lparr>os_ticks := Suc (os_ticks u)\<rparr>)"
  have v: "clock_ok READY_TIMEOUT v"
    using "1.prems" query_ip_clock [OF run] by (simp add: clock_ok_def v_def)
  show ?case
    using run quiet "1.IH" [OF _ _ _ _ _ v] v
    by (subst wait_for_ip_loop.simps)
      (auto simp: seq_def instant_now_def sleep_for_def v_def split: sum.splits option.splits)
qed

lemma fcc_challenge_iff:
  "fcc_challenge sha256 s = (Inr (), t) \<longleftrightarrow>
     (\<exists>r u a challenge r'.
        execute CSI_FCC_LOCK_GEN_CHALLENGE_REQ (pack_u32 0) Async s = (Inr r, u) \<and>
        unpack ''nn'' (msg_body r) = Inr [a, ValInt challenge] \<and>
        4 \<le> length (sha256 (to_le32 challenge @ FCC_UNLOCK_KEY)) \<and>
        execute CSI_FCC_LOCK_VER_CHALLENGE_REQ
          (pack_u32 (from_le32 (take 4 (sha256 (to_le32 challenge @ FCC_UNLOCK_KEY))))) Async u =
          (Inr r', t) \<and>
        unpack ''n'' (msg_body r') = Inr [ValInt 1])" (is "?run \<longleftrightarrow> ?conversation")
proof
  assume run: ?run
  then obtain r u challenge a r' where c:
      "execute CSI_FCC_LOCK_GEN_CHALLENGE_REQ (pack_u32 0) Async s = (Inr r, u)"
      "unpack ''nn'' (msg_body r) = Inr [a, ValInt challenge]"
      "execute CSI_FCC_LOCK_VER_CHALLENGE_REQ
        (pack_u32 (from_le32 (take 4 (sha256 (to_le32 challenge @ FCC_UNLOCK_KEY))))) Async u =
        (Inr r', t)" "unpack ''n'' (msg_body r') = Inr [ValInt 1]"
    by (rule fcc_challenge_success)
  have "4 \<le> length (sha256 (to_le32 challenge @ FCC_UNLOCK_KEY))"
    using run c(1,2) by (auto simp: fcc_challenge_def seq_Inr digest_answer_def int_at_def
        slice_get_def seq_eq_Inr split: if_splits)
  with c show ?conversation by blast
qed (auto simp: fcc_challenge_def seq_Inr int_at_def slice_get_def digest_answer_def)

lemma fcc_unlock_iff:
  "fcc_unlock sha256 s = (Inr (), t) \<longleftrightarrow>
     (\<exists>r u a st lock_mode.
        execute CSI_FCC_LOCK_QUERY_REQ (pack_u32 0) Async s = (Inr r, u) \<and>
        unpack ''nnn'' (msg_body r) = Inr [a, ValInt st, ValInt lock_mode] \<and>
        (if lock_mode = 0 \<or> st \<noteq> 0 then t = u else fcc_challenge sha256 u = (Inr (), t)))"
  (is "?run \<longleftrightarrow> ?conversation")
proof
  show ?conversation if ?run
    using that by (rule fcc_unlock_success) blast
  show ?run if ?conversation
    using that by (auto simp: fcc_unlock_def seq_Inr int_at_def slice_get_def split: if_splits)
qed

lemma run_commands_stop:
  "run_commands cs s = (Inl e, t) \<Longrightarrow>
   \<exists>k u. k < length cs \<and> run_commands (take k cs) s = (Inr (), u) \<and>
     execute (cs ! k) (pack_u32 0) Sync u = (Inl e, t)"
proof (induction cs arbitrary: s)
  case (Cons c cs)
  from Cons.prems consider "execute c (pack_u32 0) Sync s = (Inl e, t)"
    | r u where "execute c (pack_u32 0) Sync s = (Inr r, u)" "run_commands cs u = (Inl e, t)"
    by (auto simp: seq_eq_Inl)
  then show ?case
  proof cases
    case 1
    then show ?thesis by (intro exI [of _ 0]) simp
  next
    case 2
    from Cons.IH [OF 2(2)] obtain k v where "k < length cs" "run_commands (take k cs) u = (Inr (), v)"
      "execute (cs ! k) (pack_u32 0) Sync v = (Inl e, t)" by blast
    with 2(1) show ?thesis by (intro exI [of _ "Suc k"] exI [of _ v]) (simp add: seq_Inr)
  qed
qed simp

section \<open>Properties\<close>

text \<open>C24: Waiting for the firmware: every attempt sends the same harmless query, a new attempt comes
  only after the port was opened again, and the operation gives up with a timeout only when the clock
  has passed two minutes from its start.\<close>

theorem wait_ready_outcome:
  "case wait_ready s of
     (Inr _, t) \<Rightarrow>
       \<exists>k. sent t = sent s @ replicate (Suc k) (packet CSI_FCC_LOCK_QUERY_REQ (pack_u32 0) Async) \<and>
         os_opens s = replicate k None @ os_opens t
   | (Inl (Err Timeout), t) \<Rightarrow>
       \<exists>k i. sent t = sent s @ replicate (Suc k) (packet CSI_FCC_LOCK_QUERY_REQ (pack_u32 0) Async) \<and>
         os_opens s = replicate k None @ os_opens t \<and>
         os_clock s (os_ticks s) + READY_TIMEOUT \<le> os_clock s i
   | (Inl _, t) \<Rightarrow>
       \<exists>k. sent t = sent s @ replicate k (packet CSI_FCC_LOCK_QUERY_REQ (pack_u32 0) Async)"
proof -
  obtain x t where run: "wait_ready s = (x, t)" by force
  from wait_ready_trace [OF run] obtain k where
    k: "sent t = sent s @ replicate k probe"
    "x = Inr () \<longrightarrow> 0 < k \<and> os_opens s = replicate (k - 1) None @ os_opens t"
    "x = Inl (Err Timeout) \<longrightarrow> 0 < k \<and> os_opens s = replicate (k - 1) None @ os_opens t \<and>
        (\<exists>i. os_clock s (os_ticks s) + READY_TIMEOUT \<le> os_clock s i)"
    by blast
  have ok: "x = Inr () \<longrightarrow> (\<exists>k. sent t = sent s @ replicate (Suc k) probe \<and>
      os_opens s = replicate k None @ os_opens t)"
    using k(1,2) by (cases k) auto
  have expired: "x = Inl (Err Timeout) \<longrightarrow> (\<exists>k i. sent t = sent s @ replicate (Suc k) probe \<and>
      os_opens s = replicate k None @ os_opens t \<and>
      os_clock s (os_ticks s) + READY_TIMEOUT \<le> os_clock s i)"
    using k(1,3) by (cases k) auto
  have failed: "\<exists>k. sent t = sent s @ replicate k probe" using k(1) by blast
  show ?thesis
    using run ok expired failed
    by (simp only: split_paired_all prod.case split: sum.split stop.split error.split) simp
qed

text \<open>Initialisation sends the seven subsystem commands in their order, each one synchronous with
  the integer 0, and each only after the response to the one before; it fails exactly when one of
  them fails, with that error.\<close>

theorem initialize_outcome:
  "let cs = [UTA_MS_SMS_INIT, UTA_MS_CBS_INIT, UTA_MS_NET_OPEN, UTA_MS_CALL_CS_INIT,
       UTA_MS_CALL_PS_INITIALIZE, UTA_MS_SS_INIT, UTA_MS_SIM_OPEN_REQ];
     packets = map (\<lambda>c. packet c (pack_u32 0) Sync) cs
   in case initialize s of
     (Inr _, t) \<Rightarrow> sent t = sent s @ packets
   | (Inl e, t) \<Rightarrow> \<exists>k u. k < 7 \<and> run_commands (take k cs) s = (Inr (), u) \<and>
       execute (cs ! k) (pack_u32 0) Sync u = (Inl e, t) \<and> sent t = sent s @ take (Suc k) packets"
proof -
  show ?thesis
  proof (cases "initialize s")
    case (Pair x t)
    show ?thesis
    proof (cases x)
      case (Inl e)
      with Pair run_commands_stop [of init_commands s e t] obtain k u where
        k: "k < length init_commands" "run_commands (take k init_commands) s = (Inr (), u)"
        "execute (init_commands ! k) (pack_u32 0) Sync u = (Inl e, t)"
        by (auto simp: initialize_def)
      have "sent u = sent s @ map (\<lambda>c. packet c (pack_u32 0) Sync) (take k init_commands)"
        using run_commands_trace [OF k(2)] k(1) by auto
      with execute_sent [OF k(3)] k(1) have
        "sent t = sent s @ take (Suc k) (map (\<lambda>c. packet c (pack_u32 0) Sync) init_commands)"
        by (simp add: take_Suc_conv_app_nth take_map)
      with k Pair Inl show ?thesis
        unfolding Let_def init_commands_def [symmetric]
        by (auto simp: init_commands_def intro!: exI [of _ k] exI [of _ u])
    next
      case (Inr a)
      with Pair run_commands_trace [of init_commands s x t] show ?thesis
        by (simp add: initialize_def init_commands_def Let_def)
    qed
  qed
qed

text \<open>C19: Unlocking succeeds in two ways only: the modem says that it is not locked (lock mode 0 or
  state not 0) and nothing more is sent, or the challenge it sends is answered with the first four
  bytes of the SHA-256 digest of challenge and key, little-endian both, and its verdict is 1.\<close>

theorem fcc_unlock_succeeds:
  "fcc_unlock sha256 s = (Inr (), t) \<longleftrightarrow>
     (\<exists>r u a state lock_mode.
        execute CSI_FCC_LOCK_QUERY_REQ (pack_u32 0) Async s = (Inr r, u) \<and>
        unpack ''nnn'' (msg_body r) = Inr [a, ValInt state, ValInt lock_mode] \<and>
        (if lock_mode \<noteq> 0 \<and> state = 0 then
           \<exists>r1 u1 b challenge r2.
             execute CSI_FCC_LOCK_GEN_CHALLENGE_REQ (pack_u32 0) Async u = (Inr r1, u1) \<and>
             unpack ''nn'' (msg_body r1) = Inr [b, ValInt challenge] \<and>
             4 \<le> length (sha256 (to_le32 challenge @ [0x3d, 0xf8, 0xc7, 0x19])) \<and>
             execute CSI_FCC_LOCK_VER_CHALLENGE_REQ
               (pack_u32 (from_le32 (take 4 (sha256 (to_le32 challenge @ [0x3d, 0xf8, 0xc7, 0x19])))))
               Async u1 = (Inr r2, t) \<and>
             unpack ''n'' (msg_body r2) = Inr [ValInt 1]
         else t = u))"
proof -
  have swap: "(if lock_mode = 0 \<or> state \<noteq> 0 then P else Q) = (if lock_mode \<noteq> 0 \<and> state = 0 then Q else P)"
    for lock_mode state :: u32 and P Q
    by simp
  show ?thesis
    using fcc_unlock_iff [of sha256 s t] fcc_challenge_iff [of sha256 _ t]
    unfolding FCC_UNLOCK_KEY_def swap by (simp only: simp_thms)
qed

lemma mode_indication:
  assumes "answer_ok (CallId UTA_MODE_SET_RSP_CB) (ints vs) (map ValInt vs)"
  shows "is_frame (frame_for 0 UTA_MODE_SET_RSP_CB (ints vs))"
    and "parse (frame_for 0 UTA_MODE_SET_RSP_CB (ints vs)) =
      Inr \<lparr>msg_tid = 0, msg_kind = UnsolicitedInd, msg_code = UTA_MODE_SET_RSP_CB,
        msg_body = ints vs, msg_content = map ValInt vs\<rparr>"
  using assms frame_for_is_frame [of "ints vs" 0 UTA_MODE_SET_RSP_CB]
  by (simp_all add: answer_ok_def parse_frame_for classify_def TXID_SYNC_def MAX_MESSAGE_LEN_def)

text \<open>C20: Setting the mode is confirmed: it succeeds only when the direct response starts with 0 and,
  after it, a mode-set indication starting with the requested mode is the first indication of that
  code in the stream; one packet is sent for it.\<close>

theorem set_mode_confirmed:
  assumes "set_mode m s = (Inr (), t)"
  shows "\<exists>r u raws ms raw ind.
    execute UTA_MODE_SET_REQ (asn_int 0 @ asn_int MODE_TID @ asn_int m) Sync s = (Inr r, u) \<and>
    slice_get (msg_content r) 0 = Some (ValInt 0) \<and>
    stream u = concat raws @ raw @ stream t \<and>
    list_all2 (\<lambda>raw m. is_frame raw \<and> parse raw = Inr m) (raws @ [raw]) (ms @ [ind]) \<and>
    (\<forall>x \<in> set ms. msg_code x \<noteq> UTA_MODE_SET_RSP_CB) \<and> msg_code ind = UTA_MODE_SET_RSP_CB \<and>
    slice_get (msg_content ind) 0 = Some (ValInt m) \<and>
    sent t = sent s @ [packet UTA_MODE_SET_REQ (asn_int 0 @ asn_int MODE_TID @ asn_int m) Sync]"
proof -
  obtain r u raws ms raw ind where c:
    "execute UTA_MODE_SET_REQ (asn_int 0 @ asn_int MODE_TID @ asn_int m) Sync s = (Inr r, u)"
    "slice_get (msg_content r) 0 = Some (ValInt 0)"
    "messages raws ms" "\<forall>x \<in> set ms. msg_code x \<noteq> UTA_MODE_SET_RSP_CB"
    "is_frame raw" "parse raw = Inr ind" "msg_code ind = UTA_MODE_SET_RSP_CB"
    "slice_get (msg_content ind) 0 = Some (ValInt m)"
    "stream u = concat raws @ raw @ stream t" "sent t = sent u"
    using assms by (rule set_mode_success)
  then show ?thesis
    using execute_sent [OF c(1)]
    by (intro exI [of _ r] exI [of _ u] exI [of _ raws] exI [of _ ms] exI [of _ raw] exI [of _ ind])
      (simp add: messages_def list_all2_appendI)
qed

definition mode_conversation :: "byte list" where
  \<comment> \<open>A response to the mode request, then the indication that confirms mode 1.\<close>
  "mode_conversation =
     packet UTA_MODE_SET_REQ (ints [0]) Sync @ frame_for 0 UTA_MODE_SET_RSP_CB (ints [1])"

lemma mode_conversation_ok:
  "answer_ok UTA_MODE_SET_REQ (ints [0]) [ValInt 0]"
  "answer_ok (CallId UTA_MODE_SET_RSP_CB) (ints [1]) [ValInt 1]"
  using ints_ok [of UTA_MODE_SET_REQ "[0]"] ints_ok [of "CallId UTA_MODE_SET_RSP_CB" "[1]"]
  by (simp_all add: UTA_MODE_SET_REQ_def UTA_MODE_SET_RSP_CB_def)

theorem set_mode_confirmed_witness:
  "\<exists>t. set_mode 1 (peer_sys 1 mode_conversation) = (Inr (), t) \<and>
    sent t = [packet UTA_MODE_SET_REQ (asn_int 0 @ asn_int MODE_TID @ asn_int 1) Sync]"
proof -
  note ok = mode_conversation_ok
  note ind = mode_indication [of "[1]"]
  have "serves (Suc 0) (packet UTA_MODE_SET_REQ (ints [0]) Sync @
      frame_for 0 UTA_MODE_SET_RSP_CB (ints [1]) @ []) (peer_sys (Suc 0) mode_conversation)"
    using peer_serves [of mode_conversation "Suc 0"] by (simp add: mode_conversation_def)
  from serves_set_mode [OF this, of "[]"] ok ind obtain t
    where t: "set_mode 1 (peer_sys (Suc 0) mode_conversation) = (Inr (), t)" by fastforce
  from set_mode_confirmed [OF t] t show ?thesis by (auto simp: peer_sys_facts)
qed

text \<open>C21: An early confirmation is lost: \<open>execute\<close> discards the indications in front of the direct
  response, the mode-set indication included, and \<open>recv\<close> waits without a deadline.  A modem that
  reports the mode before it answers the request, and nothing after, leaves \<open>set_mode\<close> waiting
  forever, although the mode was set.\<close>

theorem set_mode_misses_early_confirmation:
  assumes "serves (Suc n) (concat raws @ raw) s"
    and "list_all2 (\<lambda>raw m. is_frame raw \<and> parse raw = Inr m) (raws @ [raw]) (ms @ [r])"
    and "\<forall>x \<in> set ms. msg_kind x \<noteq> Response" and "msg_kind r = Response"
    and "slice_get (msg_content r) 0 = Some (ValInt 0)"
  shows "fst (set_mode m s) = Inl Blocked"
proof -
  have ok: "messages raws ms" "is_frame raw" "parse raw = Inr r"
    using assms(2) list_all2_lengthD [OF assms(2)] by (simp_all add: messages_def list_all2_append)
  have "os_writes s = None # replicate n None" "fed s" "stream s = concat raws @ raw @ []"
    using assms(1) by (simp_all add: serves_def)
  with serves_prompt [OF assms(1) timeouts_in_range(1,2)]
  obtain t where run: "execute UTA_MODE_SET_REQ (asn_int 0 @ asn_int MODE_TID @ asn_int m) Sync s =
      (Inr r, t)" and t: "stream t = []" "fed t"
    using execute_answered_ex [OF _ _ _ _ ok(1) assms(3) ok(2,3) assms(4)] by metis
  have "fst (set_mode_loop m t) = Inl Blocked"
    using silent_recv [OF t(2,1)] by (subst set_mode_loop.simps) (auto simp: seq_def split: prod.split)
  with run assms(5) show ?thesis
    by (simp add: set_mode_def mode_request seq_Inr int_at_def)
qed

theorem set_mode_misses_early_confirmation_witness:
  "fst (set_mode 1 (peer_sys 1 (frame_for 0 UTA_MODE_SET_RSP_CB (ints [1]) @
     packet UTA_MODE_SET_REQ (ints [0]) Sync))) = Inl Blocked"
proof -
  let ?r = "answer_message UTA_MODE_SET_REQ (ints [0]) [ValInt 0] Sync"
  note ok = mode_conversation_ok
  note ind = mode_indication [of "[1]"]
  show ?thesis
    using set_mode_misses_early_confirmation [of 0 "[frame_for 0 UTA_MODE_SET_RSP_CB (ints [1])]"
        "packet UTA_MODE_SET_REQ (ints [0]) Sync" _ "[_]" ?r 1]
      peer_serves [of _ "Suc 0"] ok ind answer_parses [OF ok(1)]
    by (simp add: slice_get_def)
qed

text \<open>C22: Attaching: the configuration request for an APN that fits is followed by one attach request;
  its status decides alone unless it is 0xffffffff.  In that case messages are received off the stream, in
  order and up to the first after which a permission is on record (none at all if one was recorded
  before), a second attach request is sent from there and its status decides.\<close>

theorem attach_verdict:
  assumes "attach apn s = (Inr b, t)"
  shows "length apn \<le> APN_MAX_LEN \<and>
    (\<exists>r0 u r v a status.
       execute UTA_MS_CALL_PS_ATTACH_APN_CONFIG_REQ (layout apn_specs (apn_args (padded_apn apn))) Async s =
         (Inr r0, u) \<and>
       execute UTA_MS_NET_ATTACH_REQ attach_payload Async u = (Inr r, v) \<and>
       unpack ''nn'' (msg_body r) = Inr [a, ValInt status] \<and>
       (if status \<noteq> 0xffffffff
        then b \<and> t = v \<and>
          sent t = sent s @ [config_packet apn, packet UTA_MS_NET_ATTACH_REQ attach_payload Async]
        else \<exists>raws ms w r' a' status'.
          receives recv v ms w \<and>
          list_all2 (\<lambda>raw m. is_frame raw \<and> parse raw = Inr m) raws ms \<and>
          stream v = concat raws @ stream w \<and>
          attach_allowed w \<and>
          (\<forall>i < length ms. \<not> foldl attach_flag (attach_allowed v) (take i ms)) \<and>
          execute UTA_MS_NET_ATTACH_REQ attach_payload Async w = (Inr r', t) \<and>
          unpack ''nn'' (msg_body r') = Inr [a', ValInt status'] \<and>
          b = (status' \<noteq> 0xffffffff) \<and>
          sent t = sent s @ [config_packet apn, packet UTA_MS_NET_ATTACH_REQ attach_payload Async,
            packet UTA_MS_NET_ATTACH_REQ attach_payload Async]))"
proof -
  have len: "length apn \<le> APN_MAX_LEN"
    using assms attach_too_long [of apn s] by (cases "length apn \<le> APN_MAX_LEN") auto
  obtain cfg r0 u r v a st where run: "attach_config apn = Inr cfg"
    "execute UTA_MS_CALL_PS_ATTACH_APN_CONFIG_REQ cfg Async s = (Inr r0, u)"
    "execute UTA_MS_NET_ATTACH_REQ attach_payload Async u = (Inr r, v)"
    "unpack ''nn'' (msg_body r) = Inr [a, ValInt st]"
    and verdict: "if st \<noteq> 0xffffffff then b \<and> t = v
     else \<exists>w r' a' st'. await_attach v = (Inr (), w) \<and>
       execute UTA_MS_NET_ATTACH_REQ attach_payload Async w = (Inr r', t) \<and>
       unpack ''nn'' (msg_body r') = Inr [a', ValInt st'] \<and> b = (st' \<noteq> 0xffffffff)"
    using assms by (rule attach_success)
  have cfg: "cfg = layout apn_specs (apn_args (padded_apn apn))"
    using run(1) attach_config_layout [OF len] by simp
  have sent: "sent v = sent s @ [config_packet apn, packet UTA_MS_NET_ATTACH_REQ attach_payload Async]"
    using execute_sent [OF run(2)] execute_sent [OF run(3)] by (simp add: config_packet_def cfg)
  show ?thesis
  proof (cases "st = 0xffffffff")
    case False
    with len run(2-4) verdict sent show ?thesis unfolding cfg by auto
  next
    case True
    with verdict obtain w r' a' st' where w: "await_attach v = (Inr (), w)"
      "execute UTA_MS_NET_ATTACH_REQ attach_payload Async w = (Inr r', t)"
      "unpack ''nn'' (msg_body r') = Inr [a', ValInt st']" "b = (st' \<noteq> 0xffffffff)"
      by auto
    obtain raws ms where heard: "receives recv v ms w"
      "list_all2 (\<lambda>raw m. is_frame raw \<and> parse raw = Inr m) raws ms" "stream v = concat raws @ stream w"
      "attach_allowed w" "\<forall>i < length ms. \<not> foldl attach_flag (attach_allowed v) (take i ms)"
      "sent w = sent v"
      using w(1) by (rule await_attach_hears)
    have "sent t = sent s @ [config_packet apn, packet UTA_MS_NET_ATTACH_REQ attach_payload Async,
        packet UTA_MS_NET_ATTACH_REQ attach_payload Async]"
      using execute_sent [OF w(2)] sent heard(6) by simp
    note facts = run(2-4) [unfolded cfg] heard(1-5) w(2-4) this
    have again: "(if st \<noteq> 0xffffffff then P else Q) \<longleftrightarrow> Q" for P Q using True by simp
    show ?thesis
      by (rule conjI [OF len], rule exI [of _ r0], rule exI [of _ u], rule exI [of _ r],
        rule exI [of _ v], rule exI [of _ a], rule exI [of _ st], intro conjI facts(1-3), unfold again,
        rule exI [of _ raws], rule exI [of _ ms], rule exI [of _ w], rule exI [of _ r'],
        rule exI [of _ a'], rule exI [of _ st'], intro conjI; rule facts)
  qed
qed

theorem attach_verdict_witness:
  "\<exists>t. attach ''internet'' (peer_sys 2 (packet UTA_MS_CALL_PS_ATTACH_APN_CONFIG_REQ (ints [0]) Sync @
     packet UTA_MS_NET_ATTACH_REQ (ints [0, 0]) Sync)) = (Inr True, t) \<and>
     (\<exists>rest. sent t = config_packet ''internet'' # rest)"
proof -
  let ?bs = "packet UTA_MS_CALL_PS_ATTACH_APN_CONFIG_REQ (ints [0]) Sync @
     packet UTA_MS_NET_ATTACH_REQ (ints [0, 0]) Sync @ []"
  have "answer_ok UTA_MS_CALL_PS_ATTACH_APN_CONFIG_REQ (ints [0]) [ValInt 0]"
    "answer_ok UTA_MS_NET_ATTACH_REQ (ints [0, 0]) [ValInt 0, ValInt 0]"
    using ints_ok [of UTA_MS_CALL_PS_ATTACH_APN_CONFIG_REQ "[0]"] ints_ok [of UTA_MS_NET_ATTACH_REQ "[0, 0]"]
    by (simp_all add: command_defs)
  moreover have "unpack ''nn'' (ints [0, 0]) = Inr [ValInt 0, ValInt 0]"
    using ints_decode(2) [of "[0, 0]"] by simp
  ultimately obtain t where t: "attach ''internet'' (peer_sys (Suc (Suc 0)) ?bs) = (Inr True, t)"
    using serves_attach [OF peer_serves [of ?bs "Suc (Suc 0)"], of _ _ _ 0 "''internet''"]
    by (fastforce simp: APN_MAX_LEN_def)
  from attach_verdict [OF t] have "\<exists>rest. sent t = config_packet ''internet'' # rest"
    by (elim conjE exE) (auto simp: peer_sys_facts split: if_splits)
  with t show ?thesis by (auto simp: numeral_2_eq_2)
qed

text \<open>The address is the last candidate that is not 0.0.0.0: a successful query sends its two
  requests and returns, with the name servers of the second answer, the last specified one of the
  three candidates of the first, or nothing when all three are unspecified.\<close>

theorem query_ip_takes_last:
  assumes "query_ip s = (Inr x, t)"
  shows "\<exists>r u a b c r' dns.
    execute UTA_MS_CALL_PS_GET_NEG_IP_ADDR_REQ query_payload Async s = (Inr r, u) \<and>
    execute UTA_MS_CALL_PS_GET_NEGOTIATED_DNS_REQ query_payload Async u = (Inr r', t) \<and>
    parse_neg_ip (msg_body r) = Inr [a, b, c] \<and> parse_dns (msg_body r') = Inr dns \<and>
    x = (if c \<noteq> UNSPECIFIED then Some (c, dns)
         else if b \<noteq> UNSPECIFIED then Some (b, dns)
         else if a \<noteq> UNSPECIFIED then Some (a, dns) else None) \<and>
    sent t = sent s @ query_packets"
proof -
  from assms obtain r u a b c r' dns where
    "execute UTA_MS_CALL_PS_GET_NEG_IP_ADDR_REQ query_payload Async s = (Inr r, u)"
    "parse_neg_ip (msg_body r) = Inr [a, b, c]"
    "execute UTA_MS_CALL_PS_GET_NEGOTIATED_DNS_REQ query_payload Async u = (Inr r', t)"
    "parse_dns (msg_body r') = Inr dns"
    "x = map_option (\<lambda>address. (address, dns)) (pick_address a b c)"
    by (rule query_ip_success)
  then show ?thesis
    using query_ip_sent [OF assms]
    by (intro exI [of _ r] exI [of _ u] exI [of _ a] exI [of _ b] exI [of _ c] exI [of _ r'] exI [of _ dns])
      (simp add: pick_address_def)
qed

definition ip_conversation :: "byte list" where
  \<comment> \<open>The candidates 0.0.0.0, 10.0.0.7 and 0.0.0.0, and the name server 9.9.9.9.\<close>
  "ip_conversation =
     packet UTA_MS_CALL_PS_GET_NEG_IP_ADDR_REQ (ip_body [0, 0, 0, 0, 10, 0, 0, 7, 0, 0, 0, 0]) Async @
     packet UTA_MS_CALL_PS_GET_NEGOTIATED_DNS_REQ (dns_body [9, 9, 9, 9]) Async"

lemma ip_conversation_ok:
  assumes "serves (Suc (Suc n)) (ip_conversation @ rest) s"
  shows "\<exists>t. query_ip s = (Inr (Some ((10, 0, 0, 7), \<lparr>dns_v4 = [(9, 9, 9, 9)], dns_v6 = []\<rparr>)), t) \<and>
      serves n rest t"
    and "clock_ok timeout s \<Longrightarrow> \<exists>t. wait_for_ip timeout interval s =
      (Inr (Some ((10, 0, 0, 7), \<lparr>dns_v4 = [(9, 9, 9, 9)], dns_v6 = []\<rparr>)), t) \<and> serves n rest t"
proof -
  let ?ip = "[0, 0, 0, 0, 10, 0, 0, 7, 0, 0, 0, 0]" and ?dns = "[9, 9, 9, 9]"
  have raw: "raw_id UTA_MS_CALL_PS_GET_NEG_IP_ADDR_REQ < 2000"
    "raw_id UTA_MS_CALL_PS_GET_NEGOTIATED_DNS_REQ < 2000"
    by (simp_all add: command_defs)
  obtain v1 where v1: "answer_ok UTA_MS_CALL_PS_GET_NEG_IP_ADDR_REQ (ip_body ?ip) v1"
    using ip_answer(1) [of ?ip, OF _ raw(1)] by auto
  obtain v2 where v2: "answer_ok UTA_MS_CALL_PS_GET_NEGOTIATED_DNS_REQ (dns_body ?dns) v2"
    using dns_answer(1) [of ?dns, OF _ raw(2)] by auto
  have p: "parse_neg_ip (ip_body ?ip) = Inr [(0, 0, 0, 0), (10, 0, 0, 7), (0, 0, 0, 0)]"
    "parse_dns (dns_body ?dns) = Inr \<lparr>dns_v4 = [(9, 9, 9, 9)], dns_v6 = []\<rparr>"
    using ip_answer(2) [of ?ip, OF _ raw(1)] dns_answer(2) [of ?dns, OF _ raw(2)]
    by (simp_all add: ipv4_at_def)
  have pick: "pick_address (0, 0, 0, 0) (10, 0, 0, 7) (0, 0, 0, 0) = Some (10, 0, 0, 7)"
    by (simp add: pick_address_def UNSPECIFIED_def)
  from assms have s: "serves (Suc (Suc n))
      (packet UTA_MS_CALL_PS_GET_NEG_IP_ADDR_REQ (ip_body ?ip) Async @
       packet UTA_MS_CALL_PS_GET_NEGOTIATED_DNS_REQ (dns_body ?dns) Async @ rest) s"
    by (simp add: ip_conversation_def)
  show "\<exists>t. query_ip s = (Inr (Some ((10, 0, 0, 7), \<lparr>dns_v4 = [(9, 9, 9, 9)], dns_v6 = []\<rparr>)), t) \<and>
      serves n rest t"
    using serves_query_ip [OF s v1 v2 p] pick by simp
  show "\<exists>t. wait_for_ip timeout interval s =
      (Inr (Some ((10, 0, 0, 7), \<lparr>dns_v4 = [(9, 9, 9, 9)], dns_v6 = []\<rparr>)), t) \<and> serves n rest t"
    if "clock_ok timeout s"
    using serves_wait_for_ip [OF s v1 v2 p pick that] .
qed

lemma ip_peer: "serves (Suc (Suc 0)) (ip_conversation @ []) (peer_sys 2 ip_conversation)"
  using peer_serves [of ip_conversation 2] by (simp add: ip_conversation_def numeral_2_eq_2)

theorem query_ip_takes_last_witness:
  "\<exists>t. query_ip (peer_sys 2 ip_conversation) =
      (Inr (Some ((10, 0, 0, 7), \<lparr>dns_v4 = [(9, 9, 9, 9)], dns_v6 = []\<rparr>)), t) \<and>
    sent t = query_packets"
proof -
  obtain t where t: "query_ip (peer_sys 2 ip_conversation) =
      (Inr (Some ((10, 0, 0, 7), \<lparr>dns_v4 = [(9, 9, 9, 9)], dns_v6 = []\<rparr>)), t)"
    using ip_conversation_ok(1) [OF ip_peer] by blast
  from query_ip_takes_last [OF t] have "sent t = sent (peer_sys 2 ip_conversation) @ query_packets"
    by blast
  with t show ?thesis by (simp add: peer_sys_facts)
qed

text \<open>C23: Waiting for the address: from the start some rounds go on, each a query without an address, a
  reading of the clock before the deadline and a sleep of the interval; the query after them decides.
  Its address, which is specified, is returned at once whatever the clock says, and nothing is returned
  only when it found none and the reading after it was at or past the deadline.\<close>

theorem wait_for_ip_outcome:
  assumes "wait_for_ip timeout interval s = (Inr x, t)"
  shows "\<exists>n u v.
    retries (os_clock s (os_ticks s) + timeout) interval (s\<lparr>os_ticks := os_ticks s + 1\<rparr>) n u \<and>
    query_ip u = (Inr x, v) \<and>
    (case x of
       None \<Rightarrow> os_clock s (os_ticks s) + timeout \<le> os_clock s (os_ticks v) \<and>
         t = v\<lparr>os_ticks := os_ticks v + 1\<rparr>
     | Some (address, dns) \<Rightarrow> address \<noteq> UNSPECIFIED \<and> t = v) \<and>
    sent t = sent s @ concat (replicate (Suc n) query_packets)"
proof -
  obtain n u v where run:
    "retries (os_clock s (os_ticks s) + timeout) interval (s\<lparr>os_ticks := os_ticks s + 1\<rparr>) n u"
    "query_ip u = (Inr x, v)"
    "case x of
       None \<Rightarrow> os_clock s (os_ticks s) + timeout \<le> os_clock s (os_ticks v) \<and>
         t = v\<lparr>os_ticks := os_ticks v + 1\<rparr>
     | Some _ \<Rightarrow> t = v"
    "sent t = sent s @ concat (replicate (Suc n) query_packets)"
    using assms by (rule wait_for_ip_trace)
  have "fst found \<noteq> UNSPECIFIED" if "x = Some found" for found
    using run(2) that query_ip_specified by blast
  with run show ?thesis by (intro exI [of _ n] exI [of _ u] exI [of _ v]) (auto split: option.splits)
qed

theorem wait_for_ip_outcome_witness:
  "\<exists>t n. wait_for_ip (nanos 60) (nanos 1) (peer_sys 2 ip_conversation) =
      (Inr (Some ((10, 0, 0, 7), \<lparr>dns_v4 = [(9, 9, 9, 9)], dns_v6 = []\<rparr>)), t) \<and>
    sent t = concat (replicate (Suc n) query_packets)"
proof -
  have "clock_ok (nanos 60) (peer_sys 2 ip_conversation)"
    by (rule clock_ok_mono [OF peer_sys_facts(5)]) (simp add: nanos_def)
  then obtain t where t: "wait_for_ip (nanos 60) (nanos 1) (peer_sys 2 ip_conversation) =
      (Inr (Some ((10, 0, 0, 7), \<lparr>dns_v4 = [(9, 9, 9, 9)], dns_v6 = []\<rparr>)), t)"
    using ip_conversation_ok(2) [OF ip_peer] by blast
  from wait_for_ip_outcome [OF t] t show ?thesis by (auto simp: peer_sys_facts)
qed

text \<open>C27: A configured wait that is too long panics: \<open>Instant::now() + timeout\<close> leaves its range for a
  number of seconds near the limit of 64 bits; with any other timeout no operation panics here.\<close>

theorem wait_for_ip_panics:
  "clock_ok READY_TIMEOUT s \<Longrightarrow>
   fst (wait_for_ip timeout interval s) = Inl Panic \<longleftrightarrow>
     2 ^ 63 \<le> (os_clock s (os_ticks s) + timeout) div nanos 1"
proof -
  assume ok: "clock_ok READY_TIMEOUT s"
  let ?s = "s\<lparr>os_ticks := Suc (os_ticks s)\<rparr>"
  show ?thesis
  proof (cases "(os_clock s (os_ticks s) + timeout) div nanos 1 \<le> 2 ^ 63 - 1")
    case True
    then have "wait_for_ip timeout interval s =
        wait_for_ip_loop (os_clock s (os_ticks s) + timeout) interval ?s"
      by (simp add: wait_for_ip_def instant_now_def instant_add_def seq_def)
    moreover have "clock_ok READY_TIMEOUT ?s" using ok by (simp add: clock_ok_def)
    ultimately show ?thesis using True wait_for_ip_loop_calm by simp
  next
    case False
    then show ?thesis using wait_for_ip_overflow(1) [of s timeout interval] by simp
  qed
qed

theorem wait_for_ip_panics_witness:
  "fst (wait_for_ip (from_secs (2 ^ 63)) (from_secs 1) quiet_sys) = Inl Panic"
  using wait_for_ip_panics [of quiet_sys "from_secs (2 ^ 63)" "from_secs 1"]
  by (simp add: clock_ok_def quiet_sys_def READY_TIMEOUT_def nanos_def from_secs_def)

text \<open>Opening the data channel: three requests in order, of which the last carries the body of the
  first response without its last six bytes, then the body of the second response, then the integer 0;
  it fails on a first response of fewer than six bytes, and the path has at most 23 bytes.\<close>

theorem open_data_channel_setup:
  assumes "open_data_channel path s = (Inr (), t)"
  shows "length path \<le> 23 \<and> (\<exists>r u r' v r''.
    execute UTA_MS_CALL_PS_CONNECT_REQ connect_payload Async s = (Inr r, u) \<and>
    execute UTA_RPC_PS_CONNECT_TO_DATACHANNEL_REQ (channel_payload path) Sync u = (Inr r', v) \<and>
    6 \<le> length (msg_body r) \<and>
    execute UTA_RPC_PS_CONNECT_SETUP_REQ
      (take (length (msg_body r) - 6) (msg_body r) @ msg_body r' @ asn_int 0) Sync v = (Inr r'', t))"
  using assms by (rule open_data_channel_success) blast

theorem open_data_channel_setup_witness:
  "\<exists>t r u. open_data_channel ''/dev/x'' (peer_sys 3 (
     packet UTA_MS_CALL_PS_CONNECT_REQ (ints [7, 8]) Async @
     packet UTA_RPC_PS_CONNECT_TO_DATACHANNEL_REQ (ints [0]) Sync @
     packet UTA_RPC_PS_CONNECT_SETUP_REQ (ints [0]) Sync)) = (Inr (), t) \<and>
     execute UTA_MS_CALL_PS_CONNECT_REQ connect_payload Async (peer_sys 3 (
     packet UTA_MS_CALL_PS_CONNECT_REQ (ints [7, 8]) Async @
     packet UTA_RPC_PS_CONNECT_TO_DATACHANNEL_REQ (ints [0]) Sync @
     packet UTA_RPC_PS_CONNECT_SETUP_REQ (ints [0]) Sync)) = (Inr r, u)"
proof -
  let ?bs = "packet UTA_MS_CALL_PS_CONNECT_REQ (ints [7, 8]) Async @
     packet UTA_RPC_PS_CONNECT_TO_DATACHANNEL_REQ (ints [0]) Sync @
     packet UTA_RPC_PS_CONNECT_SETUP_REQ (ints [0]) Sync @ []"
  have ok: "answer_ok UTA_MS_CALL_PS_CONNECT_REQ (ints [7, 8]) [ValInt 7, ValInt 8]"
    "answer_ok UTA_RPC_PS_CONNECT_TO_DATACHANNEL_REQ (ints [0]) [ValInt 0]"
    "answer_ok UTA_RPC_PS_CONNECT_SETUP_REQ (ints [0]) [ValInt 0]"
    using ints_ok [of UTA_MS_CALL_PS_CONNECT_REQ "[7, 8]"]
      ints_ok [of UTA_RPC_PS_CONNECT_TO_DATACHANNEL_REQ "[0]"]
      ints_ok [of UTA_RPC_PS_CONNECT_SETUP_REQ "[0]"]
    by (simp_all add: command_defs)
  have "serves (Suc (Suc (Suc 0))) ?bs (peer_sys 3 ?bs)"
    using peer_serves [of ?bs 3] by (simp add: numeral_3_eq_3)
  from serves_open_data_channel [OF this ok, of "''/dev/x''"]
  obtain t where t: "open_data_channel ''/dev/x'' (peer_sys 3 ?bs) = (Inr (), t)" by auto
  from open_data_channel_setup [OF t] t show ?thesis by auto
qed

end
