(* ===== verification/Network.thy ===== *)
theory Network
  imports Errors Requests
begin

text \<open>
  \<open>src/src/net.rs\<close>: configuring the interface over netlink and appending name servers to the
  resolver configuration.

  The \<open>rtnetlink\<close> crate and the kernel behind it are the environment: \<open>netlink\<close> holds one queue of
  answers per kind of call and records every request, in order; a call whose queue is empty is
  \<open>Blocked\<close>.  An error of the crate is its message, an \<open>AddressMessage\<close> is opaque.  The file system
  is a map from paths to contents with a queue of answers to open and write calls.  The
  \<open>Display\<close> of \<open>Ipv4Addr\<close> and \<open>Ipv6Addr\<close> follows the standard library.
\<close>

section \<open>The netlink environment\<close>

type_synonym address_message = "byte list"

datatype nl_request =
    NlGetLink string
  | NlGetAddresses u32
  | NlDelAddress address_message
  | NlLinkUp u32
  | NlAddAddress u32 ipv4 nat
  | NlAddRoute ipv4 nat u32 u32

record netlink =
  nl_connects :: "string option list"
  nl_links :: "(string + u32 option) list"
  nl_addresses :: "(string + address_message option) list"
  nl_acks :: "string option list"
  nl_log :: "nl_request list"

type_synonym 'a net = "(netlink, error, 'a) prog"

definition nl_note :: "nl_request \<Rightarrow> unit net" where
  "nl_note q = (\<lambda>n. (Inr (), n\<lparr>nl_log := nl_log n @ [q]\<rparr>))"

definition new_connection :: "unit net" where
  "new_connection = (\<lambda>n.
     case nl_connects n of
       [] \<Rightarrow> (Inl Blocked, n)
     | None # as \<Rightarrow> (Inr (), n\<lparr>nl_connects := as\<rparr>)
     | Some e # as \<Rightarrow> (Inl (Err (Netlink e)), n\<lparr>nl_connects := as\<rparr>))"

definition next_link :: "u32 option net" where
  \<comment> \<open>\<open>links.try_next().await.map_err(Error::netlink)?\<close>\<close>
  "next_link = (\<lambda>n.
     case nl_links n of
       [] \<Rightarrow> (Inl Blocked, n)
     | Inr x # as \<Rightarrow> (Inr x, n\<lparr>nl_links := as\<rparr>)
     | Inl e # as \<Rightarrow> (Inl (Err (Netlink e)), n\<lparr>nl_links := as\<rparr>))"

definition next_address :: "address_message option net" where
  "next_address = (\<lambda>n.
     case nl_addresses n of
       [] \<Rightarrow> (Inl Blocked, n)
     | Inr x # as \<Rightarrow> (Inr x, n\<lparr>nl_addresses := as\<rparr>)
     | Inl e # as \<Rightarrow> (Inl (Err (Netlink e)), n\<lparr>nl_addresses := as\<rparr>))"

definition nl_execute :: "nl_request \<Rightarrow> unit net" where
  \<comment> \<open>\<open>.execute().await.map_err(Error::netlink)?\<close> of a request that changes the kernel's state.\<close>
  "nl_execute q =
     seq (nl_note q) (\<lambda>_ n.
       case nl_acks n of
         [] \<Rightarrow> (Inl Blocked, n)
       | None # as \<Rightarrow> (Inr (), n\<lparr>nl_acks := as\<rparr>)
       | Some e # as \<Rightarrow> (Inl (Err (Netlink e)), n\<lparr>nl_acks := as\<rparr>))"

section \<open>Configuring the interface\<close>

definition link_index :: "string \<Rightarrow> u32 net" where
  "link_index name =
     seq (nl_note (NlGetLink name)) (\<lambda>_.
     seq next_link (\<lambda>link.
     case link of
       Some index \<Rightarrow> ret index
     | None \<Rightarrow> raise (InterfaceNotFound name)))"

lemma next_address_shrinks:
  "next_address n = (Inr x, m) \<Longrightarrow> length (nl_addresses m) < length (nl_addresses n)"
  by (auto simp: next_address_def split: list.splits sum.splits)

lemma nl_execute_addresses: "nl_execute q n = (x, m) \<Longrightarrow> nl_addresses m = nl_addresses n"
  by (auto simp: nl_execute_def nl_note_def seq_def split: list.splits option.splits)

function flush_loop :: "netlink \<Rightarrow> (error, unit) res \<times> netlink" where
  \<comment> \<open>\<open>while let Some(address) = addresses.try_next().await?\<close>\<close>
  "flush_loop n =
     seq next_address (\<lambda>answer n.
       case answer of
         None \<Rightarrow> (Inr (), n)
       | Some address \<Rightarrow> seq (nl_execute (NlDelAddress address)) (\<lambda>_ n. flush_loop n) n) n"
  by pat_completeness auto
termination
  by (relation "measure (\<lambda>n. length (nl_addresses n))")
    (auto dest!: next_address_shrinks nl_execute_addresses)

declare flush_loop.simps [simp del]

definition flush_addresses :: "u32 \<Rightarrow> unit net" where
  "flush_addresses index = seq (nl_note (NlGetAddresses index)) (\<lambda>_. flush_loop)"

definition configure :: "string \<Rightarrow> ipv4 \<Rightarrow> u32 \<Rightarrow> bool \<Rightarrow> unit net" where
  "configure interface address metric default_route =
     seq new_connection (\<lambda>_.
     seq (link_index interface) (\<lambda>index.
     seq (flush_addresses index) (\<lambda>_.
     seq (nl_execute (NlLinkUp index)) (\<lambda>_.
     seq (nl_execute (NlAddAddress index address 32)) (\<lambda>_.
     if default_route then nl_execute (NlAddRoute UNSPECIFIED 0 index metric) else ret ())))))"

section \<open>Addresses as text\<close>

definition fmt_ipv4 :: "ipv4 \<Rightarrow> string" where
  "fmt_ipv4 addr =
     (case addr of (a, b, c, d) \<Rightarrow>
        dec_string (unat a) @ ''.'' @ dec_string (unat b) @ ''.'' @ dec_string (unat c) @ ''.''
        @ dec_string (unat d))"

fun segments :: "ipv6 \<Rightarrow> nat list" where
  "segments (a # b # bs) = (unat a * 256 + unat b) # segments bs"
| "segments _ = []"

fun longest_zeros :: "nat list \<Rightarrow> nat \<Rightarrow> nat \<times> nat \<Rightarrow> nat \<times> nat \<Rightarrow> nat \<times> nat" where
  \<comment> \<open>The \<open>Span\<close> loop: \<open>i\<close> is the position, then the current and the longest run (start, length).\<close>
  "longest_zeros [] i current longest = longest"
| "longest_zeros (g # gs) i current longest =
     (if g = 0 then
        let current = (if snd current = 0 then i else fst current, snd current + 1)
        in longest_zeros gs (i + 1) current
             (if snd current > snd longest then current else longest)
      else longest_zeros gs (i + 1) (0, 0) longest)"

fun fmt_segments :: "nat list \<Rightarrow> string" where
  "fmt_segments [] = []"
| "fmt_segments [g] = hex_string g"
| "fmt_segments (g # gs) = hex_string g @ '':'' @ fmt_segments gs"

definition fmt_ipv6 :: "ipv6 \<Rightarrow> string" where
  "fmt_ipv6 addr =
     (let gs = segments addr in
      if take 6 gs = [0, 0, 0, 0, 0, 0xffff] then ''::ffff:'' @ fmt_ipv4 (ipv4_at addr 12)
      else let (start, len) = longest_zeros gs 0 (0, 0) (0, 0) in
        if len > 1
        then fmt_segments (take start gs) @ ''::'' @ fmt_segments (drop (start + len) gs)
        else fmt_segments gs)"

section \<open>The resolver configuration\<close>

record files =
  fs_content :: "string \<Rightarrow> string option"
  fs_opens :: "io_error option list"
  fs_writes :: "(nat \<times> io_error) option list"

type_synonym 'a io = "(files, error, 'a) prog"

definition content_of :: "string \<Rightarrow> files \<Rightarrow> string" where
  "content_of path f = (case fs_content f path of None \<Rightarrow> [] | Some c \<Rightarrow> c)"

definition open_append :: "string \<Rightarrow> unit io" where
  \<comment> \<open>\<open>OpenOptions::new().create(true).append(true).open(path)\<close>\<close>
  "open_append path = (\<lambda>f.
     case fs_opens f of
       [] \<Rightarrow> (Inl Blocked, f)
     | None # as \<Rightarrow>
         (Inr (), f\<lparr>fs_opens := as, fs_content := (fs_content f)(path \<mapsto> content_of path f)\<rparr>)
     | Some e # as \<Rightarrow> (Inl (Err (Io e)), f\<lparr>fs_opens := as\<rparr>))"

definition write_text :: "string \<Rightarrow> string \<Rightarrow> unit io" where
  \<comment> \<open>\<open>writeln!\<close> on a file opened for appending; a failing call may have written some of the text.\<close>
  "write_text path text = (\<lambda>f.
     case fs_writes f of
       [] \<Rightarrow> (Inl Blocked, f)
     | None # as \<Rightarrow>
         (Inr (), f\<lparr>fs_writes := as,
            fs_content := (fs_content f)(path \<mapsto> content_of path f @ text)\<rparr>)
     | Some (n, e) # as \<Rightarrow>
         (Inl (Err (Io e)), f\<lparr>fs_writes := as,
            fs_content := (fs_content f)(path \<mapsto> content_of path f @ take n text)\<rparr>))"

definition newline :: string where "newline = [char_of (10 :: nat)]"

definition nameserver_line :: "string \<Rightarrow> string" where
  "nameserver_line l = ''nameserver '' @ l @ newline"

primrec write_lines :: "string \<Rightarrow> string list \<Rightarrow> unit io" where
  "write_lines path [] = ret ()"
| "write_lines path (l # ls) =
     seq (write_text path (nameserver_line l)) (\<lambda>_. write_lines path ls)"

definition append_resolv_conf :: "dns_servers \<Rightarrow> string \<Rightarrow> unit io" where
  "append_resolv_conf servers path =
     seq (open_append path) (\<lambda>_.
     seq (write_text path (newline @ ''# Added by xmmrpc'' @ newline)) (\<lambda>_.
     seq (write_lines path (map fmt_ipv4 (dns_v4 servers))) (\<lambda>_.
     write_lines path (map fmt_ipv6 (dns_v6 servers)))))"

section \<open>What configuring does\<close>

lemma nl_note_run [simp]: "nl_note q n = (Inr (), n\<lparr>nl_log := nl_log n @ [q]\<rparr>)"
  by (simp add: nl_note_def)

lemma nl_execute_ok:
  assumes "nl_execute q n = (Inr u, m)"
  shows "nl_log m = nl_log n @ [q]" "nl_addresses m = nl_addresses n" "nl_links m = nl_links n"
  using assms by (auto simp: nl_execute_def seq_def split: list.splits option.splits)

lemma next_address_ok:
  assumes "next_address n = (Inr x, m)"
  shows "nl_addresses n = Inr x # nl_addresses m" "nl_log m = nl_log n" "nl_links m = nl_links n"
  using assms by (auto simp: next_address_def split: list.splits sum.splits)

lemma flush_loop_ok:
  "flush_loop n = (Inr u, m) \<Longrightarrow>
   \<exists>as. nl_log m = nl_log n @ map NlDelAddress as \<and>
     nl_addresses n = map (\<lambda>a. Inr (Some a)) as @ Inr None # nl_addresses m \<and>
     nl_links m = nl_links n"
proof (induction n arbitrary: m rule: flush_loop.induct)
  case (1 n)
  from "1.prems" obtain y v where y: "next_address n = (Inr y, v)"
    and rest: "(case y of None \<Rightarrow> (Inr (), v)
      | Some a \<Rightarrow> seq (nl_execute (NlDelAddress a)) (\<lambda>_ n. flush_loop n) v) = (Inr u, m)"
    by (subst (asm) (1) flush_loop.simps) (simp only: seq_eq_Inr, blast)
  consider (last) "y = None" "v = m"
    | (more) a w where "y = Some a" "nl_execute (NlDelAddress a) v = (Inr (), w)"
      "flush_loop w = (Inr u, m)"
    using rest by (cases y) (auto simp: seq_eq_Inr)
  then show ?case
  proof cases
    case last
    with next_address_ok [OF y] show ?thesis by (intro exI [of _ "[]"]) simp
  next
    case more
    from "1.IH" [OF y more] obtain as where
      "nl_log m = nl_log w @ map NlDelAddress as"
      "nl_addresses w = map (\<lambda>a. Inr (Some a)) as @ Inr None # nl_addresses m"
      "nl_links m = nl_links w" by blast
    with next_address_ok [OF y] more(1) nl_execute_ok [OF more(2)] show ?thesis
      by (intro exI [of _ "a # as"]) simp
  qed
qed

lemma link_index_ok:
  assumes "link_index name n = (Inr index, m)"
  shows "nl_log m = nl_log n @ [NlGetLink name]" "nl_addresses m = nl_addresses n"
    "nl_links n = Inr (Some index) # nl_links m"
  using assms
  by (auto simp: link_index_def seq_eq_Inr next_link_def
      split: list.splits sum.splits option.splits)

lemma new_connection_ok:
  assumes "new_connection n = (Inr u, m)"
  shows "nl_log m = nl_log n" "nl_addresses m = nl_addresses n" "nl_links m = nl_links n"
  using assms by (auto simp: new_connection_def split: list.splits option.splits)

lemma configure_ok:
  assumes "configure interface address metric default_route n = (Inr (), m)"
  obtains index as where
    "nl_log m = nl_log n @ [NlGetLink interface, NlGetAddresses index] @ map NlDelAddress as
       @ [NlLinkUp index, NlAddAddress index address 32]
       @ (if default_route then [NlAddRoute UNSPECIFIED 0 index metric] else [])"
    "nl_links n = Inr (Some index) # nl_links m"
    "nl_addresses n = map (\<lambda>a. Inr (Some a)) as @ Inr None # nl_addresses m"
proof -
  from assms obtain a index b c d e where
    run: "new_connection n = (Inr (), a)" "link_index interface a = (Inr index, b)"
      "flush_addresses index b = (Inr (), c)" "nl_execute (NlLinkUp index) c = (Inr (), d)"
      "nl_execute (NlAddAddress index address 32) d = (Inr (), e)"
    and route: "(if default_route then nl_execute (NlAddRoute UNSPECIFIED 0 index metric)
      else ret ()) e = (Inr (), m)"
    by (auto simp: configure_def seq_eq_Inr)
  obtain as where fl: "nl_log c = nl_log b @ [NlGetAddresses index] @ map NlDelAddress as"
      "nl_addresses b = map (\<lambda>a. Inr (Some a)) as @ Inr None # nl_addresses c"
      and links: "nl_links c = nl_links b"
    using run(3) flush_loop_ok by (fastforce simp: flush_addresses_def seq_eq_Inr)
  note ok = new_connection_ok [OF run(1)] link_index_ok [OF run(2)] nl_execute_ok [OF run(4)]
    nl_execute_ok [OF run(5)]
  show thesis
  proof (cases default_route)
    case True
    with route have "nl_execute (NlAddRoute UNSPECIFIED 0 index metric) e = (Inr (), m)" by simp
    note ok' = nl_execute_ok [OF this]
    show ?thesis using that [of index as] True ok ok' fl links by simp
  next
    case False
    with route have "m = e" by simp
    show ?thesis using that [of index as] False ok fl links \<open>m = e\<close> by simp
  qed
qed

section \<open>What the resolver configuration becomes\<close>

definition resolv_text :: "dns_servers \<Rightarrow> string" where
  \<comment> \<open>The text a successful run appends.\<close>
  "resolv_text servers =
     newline @ ''# Added by xmmrpc'' @ newline @
     concat (map nameserver_line
       (map fmt_ipv4 (dns_v4 servers) @ map fmt_ipv6 (dns_v6 servers)))"

locale appender =
  fixes op :: "unit io" and path :: string and added :: string
  assumes effect: "op f = (x, g) \<Longrightarrow>
    \<exists>k. content_of path g = content_of path f @ take k added \<and>
      (x = Inr () \<longrightarrow> length added \<le> k) \<and> (\<forall>p. p \<noteq> path \<longrightarrow> fs_content g p = fs_content f p)"

lemma appender_ret: "appender (ret ()) path []"
  by unfold_locales simp

lemma appender_write_text: "appender (write_text path added) path added"
proof
  fix f x g
  assume "write_text path added f = (x, g)"
  then consider "x = Inl Blocked" "g = f"
    | as where "x = Inr ()" "g = f\<lparr>fs_writes := as,
        fs_content := (fs_content f)(path \<mapsto> content_of path f @ added)\<rparr>"
    | n e as where "x = Inl (Err (Io e))" "g = f\<lparr>fs_writes := as,
        fs_content := (fs_content f)(path \<mapsto> content_of path f @ take n added)\<rparr>"
    by (auto simp: write_text_def split: list.splits option.splits)
  then show "\<exists>k. content_of path g = content_of path f @ take k added \<and>
      (x = Inr () \<longrightarrow> length added \<le> k) \<and> (\<forall>p. p \<noteq> path \<longrightarrow> fs_content g p = fs_content f p)"
  proof cases
    case 1
    then show ?thesis by (intro exI [of _ 0]) simp
  next
    case 2
    then show ?thesis by (intro exI [of _ "length added"]) (simp add: content_of_def)
  next
    case (3 n)
    then show ?thesis by (intro exI [of _ n]) (simp add: content_of_def)
  qed
qed

lemma appender_open: "appender (open_append path) path []"
  by unfold_locales
    (auto simp: open_append_def content_of_def split: list.splits option.splits)

lemma appender_seq:
  assumes m: "appender m path a" and n: "appender n path b"
  shows "appender (seq m (\<lambda>_. n)) path (a @ b)"
proof
  fix f x h
  assume "seq m (\<lambda>_. n) f = (x, h)"
  then show "\<exists>k. content_of path h = content_of path f @ take k (a @ b) \<and>
      (x = Inr () \<longrightarrow> length (a @ b) \<le> k) \<and> (\<forall>p. p \<noteq> path \<longrightarrow> fs_content h p = fs_content f p)"
  proof (cases rule: seq_elim)
    case (stop e)
    from appender.effect [OF m stop(1)] obtain k where
      "content_of path h = content_of path f @ take k a"
      "\<forall>p. p \<noteq> path \<longrightarrow> fs_content h p = fs_content f p" by blast
    with stop(2) show ?thesis
      by (intro exI [of _ "min k (length a)"]) (simp add: min_def)
  next
    case (go u g)
    from appender.effect [OF m go(1)] obtain j where
      j: "content_of path g = content_of path f @ take j a" "length a \<le> j"
      "\<forall>p. p \<noteq> path \<longrightarrow> fs_content g p = fs_content f p" by auto
    from appender.effect [OF n go(2)] obtain k where
      k: "content_of path h = content_of path g @ take k b" "x = Inr () \<longrightarrow> length b \<le> k"
      "\<forall>p. p \<noteq> path \<longrightarrow> fs_content h p = fs_content g p" by blast
    from j k show ?thesis by (intro exI [of _ "length a + k"]) auto
  qed
qed

lemma appender_write_lines: "appender (write_lines path ls) path (concat (map nameserver_line ls))"
proof (induction ls)
  case Nil
  show ?case using appender_ret [of path] by (simp only: write_lines.simps list.map concat.simps)
next
  case (Cons l ls)
  from appender_seq [OF appender_write_text Cons.IH] show ?case by simp
qed

interpretation resolv: appender "append_resolv_conf servers path" path "resolv_text servers"
    for servers path
proof -
  have "appender (append_resolv_conf servers path) path
      ([] @ (newline @ ''# Added by xmmrpc'' @ newline) @
       concat (map nameserver_line (map fmt_ipv4 (dns_v4 servers))) @
       concat (map nameserver_line (map fmt_ipv6 (dns_v6 servers))))"
    unfolding append_resolv_conf_def
    by (intro appender_seq appender_open appender_write_text appender_write_lines)
  then show "appender (append_resolv_conf servers path) path (resolv_text servers)"
    by (simp add: resolv_text_def)
qed

section \<open>A kernel that grants every request\<close>

definition granting_kernel :: "u32 \<Rightarrow> address_message list \<Rightarrow> netlink" where
  \<comment> \<open>A kernel that has the interface and grants every request.\<close>
  "granting_kernel index as =
     \<lparr>nl_connects = [None], nl_links = [Inr (Some index)],
      nl_addresses = map (\<lambda>a. Inr (Some a)) as @ [Inr None],
      nl_acks = replicate (length as + 3) None, nl_log = []\<rparr>"

lemma flush_loop_grants:
  "nl_addresses n = map (\<lambda>a. Inr (Some a)) as @ Inr None # rest \<Longrightarrow>
   nl_acks n = replicate (length as) None @ acks \<Longrightarrow>
   flush_loop n = (Inr (), n\<lparr>nl_addresses := rest, nl_acks := acks,
     nl_log := nl_log n @ map NlDelAddress as\<rparr>)"
proof (induction as arbitrary: n)
  case Nil
  then show ?case by (subst flush_loop.simps) (simp add: next_address_def seq_def)
next
  case (Cons a as)
  let ?u = "n\<lparr>nl_addresses := map (\<lambda>a. Inr (Some a)) as @ Inr None # rest\<rparr>"
  let ?v = "?u\<lparr>nl_acks := replicate (length as) None @ acks,
    nl_log := nl_log n @ [NlDelAddress a]\<rparr>"
  have "next_address n = (Inr (Some a), ?u)"
    using Cons.prems(1) by (simp add: next_address_def)
  moreover have "nl_execute (NlDelAddress a) ?u = (Inr (), ?v)"
    using Cons.prems(2) by (simp add: nl_execute_def seq_def)
  ultimately have "flush_loop n = flush_loop ?v"
    by (subst flush_loop.simps) (simp add: seq_Inr)
  also have "\<dots> = (Inr (), ?v\<lparr>nl_addresses := rest, nl_acks := acks,
      nl_log := nl_log ?v @ map NlDelAddress as\<rparr>)"
    by (rule Cons.IH) simp_all
  finally show ?case by simp
qed

lemma configure_grants:
  "configure interface address metric default_route (granting_kernel index as) =
     (Inr (), \<lparr>nl_connects = [], nl_links = [], nl_addresses = [],
        nl_acks = (if default_route then [] else [None]),
        nl_log = [NlGetLink interface, NlGetAddresses index] @ map NlDelAddress as @
          [NlLinkUp index, NlAddAddress index address 32] @
          (if default_route then [NlAddRoute UNSPECIFIED 0 index metric] else [])\<rparr>)"
proof -
  let ?n = "\<lparr>nl_connects = [], nl_links = [],
    nl_addresses = map (\<lambda>a. Inr (Some a)) as @ [Inr None],
    nl_acks = replicate (length as) None @ [None, None, None],
    nl_log = [NlGetLink interface, NlGetAddresses index]\<rparr>"
  have acks: "replicate (length as + 3) None = replicate (length as) None @ [None, None, None]"
    by (simp add: replicate_add eval_nat_numeral replicate_app_Cons_same)
  have "flush_loop ?n = (Inr (), ?n\<lparr>nl_addresses := [], nl_acks := [None, None, None],
      nl_log := nl_log ?n @ map NlDelAddress as\<rparr>)"
    by (rule flush_loop_grants) simp_all
  then show ?thesis
    by (simp add: configure_def granting_kernel_def acks new_connection_def link_index_def next_link_def
        flush_addresses_def nl_execute_def seq_def)
qed

section \<open>Properties\<close>

text \<open>C28: Configuring the interface is one fixed sequence of kernel requests: look up the interface,
  list its addresses and delete every one of them, bring the link up, add the address with prefix
  length 32 and, if wanted, a default route with the metric; all of them for the index found.\<close>

theorem configure_requests:
  assumes "configure interface address metric default_route n = (Inr (), m)"
  shows "\<exists>index as.
    nl_log m = nl_log n @ [NlGetLink interface, NlGetAddresses index] @ map NlDelAddress as
      @ [NlLinkUp index, NlAddAddress index address 32]
      @ (if default_route then [NlAddRoute (0, 0, 0, 0) 0 index metric] else []) \<and>
    nl_links n = Inr (Some index) # nl_links m \<and>
    nl_addresses n = map (\<lambda>a. Inr (Some a)) as @ Inr None # nl_addresses m"
  using assms unfolding UNSPECIFIED_def [symmetric] by (rule configure_ok) blast

theorem configure_requests_witness:
  "\<exists>m. configure ''wwan0'' (10, 0, 0, 7) 1000 True (granting_kernel 3 [[1], [2]]) = (Inr (), m) \<and>
    last (nl_log m) = NlAddRoute (0, 0, 0, 0) 0 3 1000"
proof -
  obtain m where m: "configure ''wwan0'' (10, 0, 0, 7) 1000 True (granting_kernel 3 [[1], [2]]) = (Inr (), m)"
    using configure_grants by blast
  from configure_requests [OF m] m show ?thesis by (auto simp: granting_kernel_def)
qed

text \<open>C29: The resolver configuration is only ever appended to: a successful run adds the comment and a
  line for every IPv4 and then every IPv6 server, a failing one adds an initial part of that text, and
  every other file keeps its content.\<close>

theorem append_resolv_conf_appends:
  "case append_resolv_conf servers path f of (x, g) \<Rightarrow>
     (\<exists>k. content_of path g = content_of path f @ take k (
        newline @ ''# Added by xmmrpc'' @ newline @
        concat (map (\<lambda>l. ''nameserver '' @ l @ newline)
          (map fmt_ipv4 (dns_v4 servers) @ map fmt_ipv6 (dns_v6 servers)))) \<and>
      (case x of Inr _ \<Rightarrow> k = length (resolv_text servers) | Inl _ \<Rightarrow> True)) \<and>
     (fs_content g)(path := None) = (fs_content f)(path := None)"
proof (cases "append_resolv_conf servers path f")
  case (Pair x g)
  have appended: "resolv_text servers = newline @ ''# Added by xmmrpc'' @ newline @
      concat (map (\<lambda>l. ''nameserver '' @ l @ newline)
        (map fmt_ipv4 (dns_v4 servers) @ map fmt_ipv6 (dns_v6 servers)))"
    unfolding resolv_text_def nameserver_line_def by (rule refl)
  obtain k where k: "content_of path g = content_of path f @ take k (resolv_text servers)"
    "x = Inr () \<longrightarrow> length (resolv_text servers) \<le> k"
    "\<forall>p. p \<noteq> path \<longrightarrow> fs_content g p = fs_content f p"
    using resolv.effect [OF Pair] by blast
  have "\<exists>k. content_of path g = content_of path f @ take k (resolv_text servers) \<and>
      (case x of Inr _ \<Rightarrow> k = length (resolv_text servers) | Inl _ \<Rightarrow> True)"
  proof (cases x)
    case (Inr u)
    with k(1,2) show ?thesis by (intro exI [of _ "length (resolv_text servers)"]) simp
  qed (use k(1) in auto)
  with k(3) show ?thesis unfolding appended [symmetric] by (auto simp: Pair fun_eq_iff)
qed

end
