(* ===== verification/Program.thy ===== *)
theory Program
  imports ModemFacts Network Settings
begin

text \<open>
  \<open>src/src/main.rs\<close>: the order of the bring-up and the exit code of the process.

  The state \<open>host\<close> joins the environments of the parts: the port and clock (\<open>sys\<close>), the kernel's
  netlink answers (\<open>netlink\<close>), the file system, the answers to building the \<open>tokio\<close> runtime, and
  what the process has printed and the log subscriber it installed.  Parsing the command line and
  the log output are not modelled.
\<close>

record subscriber =
  sub_filter :: string
  sub_target :: bool

record host =
  h_sys :: sys
  h_net :: netlink
  h_files :: files
  h_runtimes :: "io_error option list"
  h_stdout :: string
  h_stderr :: string
  h_log :: "subscriber option"

type_synonym 'a main = "(host, error, 'a) prog"

definition on_sys :: "'a port \<Rightarrow> 'a main" where
  "on_sys op = (\<lambda>h. case op (h_sys h) of (x, s) \<Rightarrow> (x, h\<lparr>h_sys := s\<rparr>))"

definition on_net :: "'a net \<Rightarrow> 'a main" where
  "on_net op = (\<lambda>h. case op (h_net h) of (x, n) \<Rightarrow> (x, h\<lparr>h_net := n\<rparr>))"

definition on_files :: "'a io \<Rightarrow> 'a main" where
  "on_files op = (\<lambda>h. case op (h_files h) of (x, f) \<Rightarrow> (x, h\<lparr>h_files := f\<rparr>))"

definition build_runtime :: "unit main" where
  \<comment> \<open>\<open>tokio::runtime::Builder::new_current_thread().enable_all().build()?\<close>\<close>
  "build_runtime = (\<lambda>h.
     case h_runtimes h of
       [] \<Rightarrow> (Inl Blocked, h)
     | None # as \<Rightarrow> (Inr (), h\<lparr>h_runtimes := as\<rparr>)
     | Some e # as \<Rightarrow> (Inl (Err (Io e)), h\<lparr>h_runtimes := as\<rparr>))"

definition ignore_error :: "'a main \<Rightarrow> unit main" where
  \<comment> \<open>\<open>match call { Ok(_) => log, Err(_) => log }\<close>\<close>
  "ignore_error op = (\<lambda>h.
     case op h of
       (Inr _, h) \<Rightarrow> (Inr (), h)
     | (Inl (Err _), h) \<Rightarrow> (Inr (), h)
     | (Inl Panic, h) \<Rightarrow> (Inl Panic, h)
     | (Inl Blocked, h) \<Rightarrow> (Inl Blocked, h))"

definition prepare_modem :: "(byte list \<Rightarrow> byte list) \<Rightarrow> settings \<Rightarrow> unit main" where
  \<comment> \<open>\<open>run\<close> up to the attach: open the port, wait, initialise, unlock, radio on, read the version.\<close>
  "prepare_modem sha256 st =
     seq (on_sys (rpc_open (set_rpc_port st))) (\<lambda>_.
     seq (on_sys wait_ready) (\<lambda>_.
     seq (on_sys initialize) (\<lambda>_.
     seq (on_sys (fcc_unlock sha256)) (\<lambda>_.
     seq (on_sys (set_mode 1)) (\<lambda>_.
     ignore_error (on_sys firmware_version))))))"

definition configure_host :: "settings \<Rightarrow> ipv4 \<Rightarrow> dns_servers \<Rightarrow> unit main" where
  \<comment> \<open>\<open>run\<close> after the address is known.\<close>
  "configure_host st address dns =
     seq build_runtime (\<lambda>_.
     seq (on_net (configure (set_interface st) address (set_metric st) (set_default_route st))) (\<lambda>_.
     seq (if set_write_resolv st then on_files (append_resolv_conf dns (set_resolv_conf st))
          else ret ()) (\<lambda>_.
     on_sys (open_data_channel (set_datachannel_path st)))))"

definition run :: "(byte list \<Rightarrow> byte list) \<Rightarrow> settings \<Rightarrow> unit main" where
  "run sha256 st =
     seq (prepare_modem sha256 st) (\<lambda>_.
     seq (on_sys (attach (set_apn st))) (\<lambda>attached.
     if \<not> attached then raise AttachRefused else
     seq (on_sys (wait_for_ip (set_ip_wait st) (set_ip_fetch_interval st))) (\<lambda>found.
     case found of
       None \<Rightarrow> raise NoIp
     | Some (address, dns) \<Rightarrow> configure_host st address dns)))"

definition report_error :: "error \<Rightarrow> host \<Rightarrow> nat option \<times> host" where
  \<comment> \<open>\<open>eprintln!("error: {error}"); ExitCode::from(error.exit_code())\<close>\<close>
  "report_error e h =
     (Some (exit_code e), h\<lparr>h_stderr := h_stderr h @ ''error: '' @ fmt_error e @ newline\<rparr>)"

definition finish :: "(error, 'a) res \<times> host \<Rightarrow> nat option \<times> host" where
  \<comment> \<open>The exit code of the process: 101 after a panic, none while it is still running.\<close>
  "finish r =
     (case r of
        (Inr _, h) \<Rightarrow> (Some 0, h)
      | (Inl (Err e), h) \<Rightarrow> report_error e h
      | (Inl Panic, h) \<Rightarrow> (Some 101, h)
      | (Inl Blocked, h) \<Rightarrow> (None, h))"

definition init_tracing :: "(string \<Rightarrow> bool) \<Rightarrow> env \<Rightarrow> unit main" where
  \<comment> \<open>\<open>EnvFilter::try_from_default_env\<close> fails when \<open>RUST_LOG\<close> is unset or not a valid filter, which the
    parameter decides; \<open>init\<close> panics when a subscriber is installed already.\<close>
  "init_tracing valid_filter e = (\<lambda>h.
     let directives =
           (case env_rust_log e of
              None \<Rightarrow> ''info''
            | Some text \<Rightarrow> if valid_filter text then text else ''info'')
     in if h_log h \<noteq> None then (Inl Panic, h)
        else (Inr (), h\<lparr>h_log := Some \<lparr>sub_filter = directives, sub_target = False\<rparr>\<rparr>))"

definition main ::
    "(byte list \<Rightarrow> byte list) \<Rightarrow> toml_parser \<Rightarrow> (string \<Rightarrow> bool) \<Rightarrow> string \<Rightarrow> env \<Rightarrow> cli \<Rightarrow> host \<Rightarrow>
     nat option \<times> host" where
  "main sha256 parse_toml valid_filter version e c h =
     (case init_tracing valid_filter e h of
        (Inl _, h) \<Rightarrow> (Some 101, h)
      | (Inr _, h) \<Rightarrow>
      if cli_version c
      then (Some 0, h\<lparr>h_stdout := h_stdout h @ ''xmmrpc '' @ version @ newline\<rparr>)
      else case resolve parse_toml e c of
        Inl (Err err) \<Rightarrow> report_error err h
      | Inl Panic \<Rightarrow> (Some 101, h)
      | Inl Blocked \<Rightarrow> (None, h)
      | Inr st \<Rightarrow> finish (run sha256 st h))"

end
