(* ===== verification/Sequence.thy ===== *)
theory Sequence
  imports Bringup Program
begin

text \<open>
  The whole program: what \<open>run\<close> of \<open>src/src/main.rs\<close> sends to the modem, when it touches the host,
  that it does not panic, the exit code of the process, and a complete run with a cooperative modem.
\<close>

section \<open>Polling for the address, whatever happens\<close>

lemma wait_for_ip_loop_run:
  "wait_for_ip_loop deadline interval s = (x, t) \<Longrightarrow>
   evolves s t \<and> (\<exists>n p q. sent t = sent s @ concat (replicate n query_packets) @ p \<and>
     p @ q = query_packets)"
proof (induction deadline interval s arbitrary: x t rule: wait_for_ip_loop.induct)
  case (1 deadline interval s)
  obtain y u where run: "query_ip s = (y, u)" by force
  have su: "evolves s u" using run by (rule query_op.evolves)
  define v where "v = u\<lparr>os_ticks := Suc (os_ticks u)\<rparr>"
  define w where "w = log_call (OsSleep interval) v"
  have v: "instant_now u = (Inr (os_clock u (os_ticks u)), v)" "sent v = sent u" "evolves u v"
    by (simp_all add: instant_now_def v_def evolves_def pending_def)
  have w: "sleep_for interval v = (Inr (), w)" "sent w = sent v" "evolves v w"
    by (simp_all add: sleep_for_def w_def sent_log_call evolves_def pending_def)
  consider (failed) e where "y = Inl e" "t = u"
    | (found) a where "y = Inr (Some a)" "t = u"
    | (expired) "y = Inr None" "t = v"
    | (again) "y = Inr None" "\<not> deadline \<le> os_clock u (os_ticks u)"
      "wait_for_ip_loop deadline interval w = (x, t)"
    using "1.prems" run v(1) w(1)
    by (subst (asm) wait_for_ip_loop.simps)
      (auto simp: seq_Inr elim!: seq_elim split: option.splits if_splits)
  then show ?case
  proof cases
    case failed
    from query_words.prefix [OF run [unfolded failed]] obtain p q where
      "p @ q = query_packets" "sent u = sent s @ p" by blast
    with failed su show ?thesis by (intro conjI exI [of _ 0] exI [of _ p] exI [of _ q]) simp_all
  next
    case found
    with query_ip_sent run su show ?thesis
      by (intro conjI exI [of _ 0] exI [of _ query_packets] exI [of _ "[]"]) simp_all
  next
    case expired
    with query_ip_sent run su v show ?thesis
      by (intro conjI exI [of _ 0] exI [of _ query_packets] exI [of _ "[]"])
        (auto intro: evolves_trans)
  next
    case again
    from "1.IH" [OF run [unfolded again(1)] refl v(1) again(2) w(1) again(3)] obtain n p q where
      "evolves w t" "sent t = sent w @ concat (replicate n query_packets) @ p" "p @ q = query_packets"
      by blast
    with query_ip_sent run [unfolded again(1)] su v w show ?thesis
      by (intro conjI exI [of _ "Suc n"] exI [of _ p] exI [of _ q])
        (auto intro: evolves_trans)
  qed
qed

lemma wait_for_ip_run:
  assumes "wait_for_ip timeout interval s = (x, t)"
  shows "evolves s t \<and> (\<exists>n p q. sent t = sent s @ concat (replicate n query_packets) @ p \<and>
     p @ q = query_packets)"
proof -
  let ?s = "s\<lparr>os_ticks := Suc (os_ticks s)\<rparr>"
  have s: "evolves s ?s" by (simp add: evolves_def pending_def)
  consider "t = ?s"
    | "wait_for_ip_loop (os_clock s (os_ticks s) + timeout) interval ?s = (x, t)"
    using assms
    by (auto simp: wait_for_ip_def instant_now_def instant_add_def seq_def split: if_splits)
  then show ?thesis
  proof cases
    case 1
    with s show ?thesis
      by (intro conjI exI [of _ 0] exI [of _ "[]"] exI [of _ query_packets]) simp_all
  next
    case 2
    from wait_for_ip_loop_run [OF 2] s show ?thesis by (auto intro: evolves_trans)
  qed
qed

interpretation ip_words: emitter "wait_for_ip timeout interval" query_words for timeout interval
proof (rule emitterI)
  show "port_op (wait_for_ip timeout interval)" by unfold_locales (use wait_for_ip_run in blast)
  show "\<exists>w \<in> query_words. sent t = sent s @ w" if "wait_for_ip timeout interval s = (Inr a, t)" for s a t
    using that by (rule wait_for_ip_trace) (auto simp: query_words_def simp del: concat.simps)
  show "\<exists>p q. p @ q \<in> query_words \<and> sent t = sent s @ p"
    if run: "wait_for_ip timeout interval s = (Inl e, t)" for s e t
  proof -
    obtain n p q where "sent t = sent s @ concat (replicate n query_packets) @ p" "p @ q = query_packets"
      using wait_for_ip_run [OF run] by blast
    moreover from this(2) have "(concat (replicate n query_packets) @ p) @ q \<in> query_words"
      unfolding query_words_def by (auto simp flip: replicate_append_same intro!: exI [of _ n])
    ultimately show ?thesis by blast
  qed
qed (auto simp: query_words_def)

section \<open>What the program says to the modem\<close>

locale speaker =
  fixes op :: "'a main" and lang :: "byte list list set"
  assumes word: "op h = (Inr a, g) \<Longrightarrow> \<exists>w \<in> lang. sent (h_sys g) = sent (h_sys h) @ w"
    and prefix: "op h = (Inl e, g) \<Longrightarrow> \<exists>p q. p @ q \<in> lang \<and> sent (h_sys g) = sent (h_sys h) @ p"
    and nonempty: "lang \<noteq> {}"

lemma speaker_larger: "speaker m A \<Longrightarrow> A \<subseteq> B \<Longrightarrow> speaker m B"
  unfolding speaker_def by blast

lemma speaker_on_sys: "emitter m A \<Longrightarrow> speaker (on_sys m) A"
  by unfold_locales
    (auto simp: on_sys_def split: prod.splits dest: emitter.word emitter.nonempty,
      use emitter.prefix in blast)

lemma speaker_silent:
  assumes "\<And>h. sent (h_sys (snd (m h))) = sent (h_sys h)"
  shows "speaker m {[]}"
  by unfold_locales (use assms in \<open>auto, (metis snd_conv)+\<close>)

lemma speaker_raise: "lang \<noteq> {} \<Longrightarrow> speaker (raise e) lang"
  by unfold_locales auto

lemma speaker_seq:
  assumes m: "speaker m A" and f: "\<And>a. speaker (f a) B"
  shows "speaker (seq m f) (conc A B)"
proof
  show "conc A B \<noteq> {}"
    using speaker.nonempty [OF m] speaker.nonempty [OF f] by (auto simp: conc_def)
next
  fix h a g
  assume "seq m f h = (Inr a, g)"
  then obtain b k where "m h = (Inr b, k)" "f b k = (Inr a, g)" by (auto simp: seq_eq_Inr)
  with speaker.word [OF m] speaker.word [OF f] obtain v w where
    "v \<in> A" "sent (h_sys k) = sent (h_sys h) @ v" "w \<in> B" "sent (h_sys g) = sent (h_sys k) @ w"
    by blast
  then show "\<exists>w \<in> conc A B. sent (h_sys g) = sent (h_sys h) @ w" by (auto intro: concI)
next
  fix h e g
  assume "seq m f h = (Inl e, g)"
  then consider (stop) "m h = (Inl e, g)"
    | (go) b k where "m h = (Inr b, k)" "f b k = (Inl e, g)"
    by (auto simp: seq_eq_Inl)
  then show "\<exists>p q. p @ q \<in> conc A B \<and> sent (h_sys g) = sent (h_sys h) @ p"
  proof cases
    case stop
    from speaker.prefix [OF m stop] obtain p q where
      "p @ q \<in> A" "sent (h_sys g) = sent (h_sys h) @ p" by blast
    moreover obtain w where "w \<in> B" using speaker.nonempty [OF f] by blast
    ultimately show ?thesis by (metis append.assoc concI)
  next
    case go
    with speaker.word [OF m] speaker.prefix [OF f] obtain v p q where
      "v \<in> A" "sent (h_sys k) = sent (h_sys h) @ v" "p @ q \<in> B" "sent (h_sys g) = sent (h_sys k) @ p"
      by blast
    then show ?thesis by (metis append.assoc concI)
  qed
qed

definition run_words :: "settings \<Rightarrow> byte list list set" where
  \<comment> \<open>The conversations of a complete run.\<close>
  "run_words st =
     conc probe_words (conc init_words (conc unlock_words (conc (mode_words 1) (conc version_words
       (conc (attach_words (set_apn st)) (conc query_words (channel_words (set_datachannel_path st))))))))"

lemma sent_rpc_open: "sent (snd (rpc_open path s)) = sent s"
  by (auto simp: rpc_open_def seq_def open_port_def sent_log_call Let_def
      split: list.splits option.splits)

lemma speaker_version: "speaker (ignore_error (on_sys firmware_version)) version_words"
proof
  fix h :: host
  obtain x s where run: "firmware_version (h_sys h) = (x, s)" by force
  from version_sent [OF run]
  have sent: "sent (h_sys (snd (ignore_error (on_sys firmware_version) h))) =
      sent (h_sys h) @ [packet UTA_SYS_GET_INFO (info_payload 0) Sync]"
    using run by (auto simp: ignore_error_def on_sys_def split: sum.split stop.split)
  show "\<exists>w \<in> version_words. sent (h_sys g) = sent (h_sys h) @ w"
    if "ignore_error (on_sys firmware_version) h = (Inr a, g)" for a g
    using sent that by (simp add: version_words_def)
  show "\<exists>p q. p @ q \<in> version_words \<and> sent (h_sys g) = sent (h_sys h) @ p"
    if "ignore_error (on_sys firmware_version) h = (Inl e, g)" for e g
    using sent that by (auto simp: version_words_def)
qed (simp add: version_words_def)

lemma speaker_configure_host:
  "speaker (configure_host st address dns) (channel_words (set_datachannel_path st))"
proof -
  have "speaker build_runtime {[]}"
    by (rule speaker_silent) (simp add: build_runtime_def split: list.split option.split)
  moreover have "speaker (on_net op) {[]}" for op :: "unit net"
    by (rule speaker_silent) (simp add: on_net_def split: prod.split)
  moreover have "speaker (on_files op) {[]}" for op :: "unit io"
    by (rule speaker_silent) (simp add: on_files_def split: prod.split)
  moreover have "speaker (ret ()) {[]}"
    by (rule speaker_silent) simp
  ultimately have "speaker (configure_host st address dns)
      (conc {[]} (conc {[]} (conc {[]} (channel_words (set_datachannel_path st)))))"
    unfolding configure_host_def
    by (intro speaker_seq speaker_on_sys channel_words.emitter_axioms) (simp_all)
  then show ?thesis by simp
qed

interpretation run_words: speaker "run sha256 st" "run_words st" for sha256 st
proof -
  have open_port: "speaker (on_sys (rpc_open path)) {[]}" for path
    by (rule speaker_silent)
      (use sent_rpc_open in \<open>auto simp: on_sys_def split: prod.split, metis snd_conv\<close>)
  have prepare: "speaker (prepare_modem sha256 st)
      (conc {[]} (conc probe_words (conc init_words (conc unlock_words (conc (mode_words 1) version_words)))))"
    unfolding prepare_modem_def
    by (intro speaker_seq speaker_on_sys open_port speaker_version ready_words.emitter_axioms
        init_words.emitter_axioms unlock_words.emitter_axioms mode_words.emitter_axioms)
  have answer: "speaker (case found of None \<Rightarrow> raise NoIp | Some (address, dns) \<Rightarrow> configure_host st address dns)
      (channel_words (set_datachannel_path st))" for found
    using speaker_configure_host [of st]
    by (cases found) (auto simp only: option.case prod.case split_paired_all
        intro!: speaker_raise [OF channel_words.nonempty])
  have "speaker (run sha256 st)
      (conc (conc {[]} (conc probe_words (conc init_words (conc unlock_words (conc (mode_words 1) version_words)))))
        (conc (attach_words (set_apn st)) (conc query_words (channel_words (set_datachannel_path st)))))"
    unfolding run_def
  proof (intro speaker_seq prepare speaker_on_sys attach_words.emitter_axioms)
    fix attached
    have "speaker (seq (on_sys (wait_for_ip (set_ip_wait st) (set_ip_fetch_interval st)))
        (\<lambda>found. case found of None \<Rightarrow> raise NoIp | Some (address, dns) \<Rightarrow> configure_host st address dns))
        (conc query_words (channel_words (set_datachannel_path st)))"
      by (intro speaker_seq speaker_on_sys ip_words.emitter_axioms answer)
    moreover from this have "speaker (raise AttachRefused :: unit main)
        (conc query_words (channel_words (set_datachannel_path st)))"
      by (intro speaker_raise speaker.nonempty)
    ultimately show "speaker (if \<not> attached then raise AttachRefused else
        seq (on_sys (wait_for_ip (set_ip_wait st) (set_ip_fetch_interval st)))
        (\<lambda>found. case found of None \<Rightarrow> raise NoIp | Some (address, dns) \<Rightarrow> configure_host st address dns))
        (conc query_words (channel_words (set_datachannel_path st)))"
      by simp
  qed
  then show "speaker (run sha256 st) (run_words st)"
    by (simp add: run_words_def conc_assoc)
qed

section \<open>No panic\<close>

locale steady =
  fixes op :: "'a main" and d :: nat
  assumes no_panic: "clock_ok READY_TIMEOUT (h_sys h) \<Longrightarrow> clock_ok d (h_sys h) \<Longrightarrow> fst (op h) \<noteq> Inl Panic"
    and clock: "os_clock (h_sys (snd (op h))) = os_clock (h_sys h)"

lemma steady_seq:
  assumes m: "steady m d" and f: "\<And>a. steady (f a) d"
  shows "steady (seq m f) d"
proof
  fix h :: host
  have clock: "os_clock (h_sys (snd (m h))) = os_clock (h_sys h)" by (rule steady.clock [OF m])
  show "os_clock (h_sys (snd (seq m f h))) = os_clock (h_sys h)"
    using clock steady.clock [OF f] by (auto simp: seq_def split: prod.split sum.split)
  show "fst (seq m f h) \<noteq> Inl Panic"
    if "clock_ok READY_TIMEOUT (h_sys h)" "clock_ok d (h_sys h)"
  proof -
    have "clock_ok READY_TIMEOUT (h_sys (snd (m h)))" "clock_ok d (h_sys (snd (m h)))"
      using that clock by (simp_all add: clock_ok_def)
    then show ?thesis
      using steady.no_panic [OF m that] steady.no_panic [OF f]
      by (auto simp: seq_def split: prod.split sum.split)
  qed
qed

lemma steady_on_sys:
  assumes "calm_op m"
  shows "steady (on_sys m) d"
proof
  fix h :: host
  obtain x t where run: "m (h_sys h) = (x, t)" by force
  with calm_op.axioms(1) [OF assms] have "evolves (h_sys h) t" by (rule port_op.evolves)
  then show "os_clock (h_sys (snd (on_sys m h))) = os_clock (h_sys h)"
    using run by (simp add: on_sys_def evolves_def)
  show "fst (on_sys m h) \<noteq> Inl Panic" if "clock_ok READY_TIMEOUT (h_sys h)"
    using calm_op.no_panic [OF assms that] run by (simp add: on_sys_def)
qed

lemma steady_wait_for_ip: "steady (on_sys (wait_for_ip d interval)) d"
proof
  fix h :: host
  obtain x t where run: "wait_for_ip d interval (h_sys h) = (x, t)" by force
  from wait_for_ip_run [OF run] show "os_clock (h_sys (snd (on_sys (wait_for_ip d interval) h))) = os_clock (h_sys h)"
    using run by (simp add: on_sys_def evolves_def)
  let ?s = "(h_sys h)\<lparr>os_ticks := Suc (os_ticks (h_sys h))\<rparr>"
  assume ok: "clock_ok READY_TIMEOUT (h_sys h)" "clock_ok d (h_sys h)"
  then have "wait_for_ip d interval (h_sys h) =
      wait_for_ip_loop (os_clock (h_sys h) (os_ticks (h_sys h)) + d) interval ?s"
    by (simp add: wait_for_ip_def instant_now_def instant_add_def seq_def clock_ok_def)
  moreover have "clock_ok READY_TIMEOUT ?s" using ok by (simp add: clock_ok_def)
  ultimately have "fst (wait_for_ip d interval (h_sys h)) \<noteq> Inl Panic"
    using wait_for_ip_loop_calm by simp
  with run show "fst (on_sys (wait_for_ip d interval) h) \<noteq> Inl Panic"
    by (simp add: on_sys_def)
qed

lemma steady_quiet:
  assumes "\<And>h. fst (m h) \<noteq> Inl Panic" and "\<And>h. h_sys (snd (m h)) = h_sys h"
  shows "steady m d"
  by unfold_locales (simp_all add: assms)

lemma never_nl_execute: "never Panic (nl_execute q)"
  by (auto simp: never_def nl_execute_def seq_def split: list.split option.split)

lemma never_flush_loop: "never Panic flush_loop"
proof -
  have "fst (flush_loop n) \<noteq> Inl Panic" for n
  proof (induction n rule: flush_loop.induct)
    case (1 n)
    have "fst (next_address n) \<noteq> Inl Panic"
      by (auto simp: next_address_def split: list.split sum.split)
    with 1 never_run [OF never_nl_execute] show ?case
      by (subst flush_loop.simps) (auto simp: seq_def split: prod.splits sum.splits option.splits)
  qed
  then show ?thesis by (simp add: never_def)
qed

lemma never_configure: "never Panic (configure interface address metric default_route)"
proof -
  have "never Panic new_connection" "never Panic next_link" "never Panic (nl_note q)" for q
    by (auto simp: never_def new_connection_def next_link_def split: list.split option.split sum.split)
  then show ?thesis
    unfolding configure_def link_index_def flush_addresses_def
    by (auto intro!: never_intros never_nl_execute never_flush_loop split: option.split)
qed

lemma never_append_resolv_conf: "never Panic (append_resolv_conf servers path)"
proof -
  have w: "never Panic (write_text path added)" for added
    by (auto simp: never_def write_text_def split: list.split option.split)
  have "never Panic (write_lines path ls)" for ls
  proof (induction ls)
    case (Cons l ls)
    with w show ?case by (simp only: write_lines.simps) (intro never_intros)
  qed (simp only: write_lines.simps never_intros)
  moreover have "never Panic (open_append path)"
    by (auto simp: never_def open_append_def split: list.split option.split)
  ultimately show ?thesis
    unfolding append_resolv_conf_def by (intro never_intros w)
qed

lemma steady_configure_host: "steady (configure_host st address dns) d"
proof -
  have "steady build_runtime d"
    by (rule steady_quiet) (auto simp: build_runtime_def split: list.split option.split)
  moreover have "steady (on_net (configure i a m r)) d" for i a m r
    using never_run [OF never_configure [of i a m r]]
    by (intro steady_quiet) (auto simp: on_net_def split: prod.split)
  moreover have "steady (on_files (append_resolv_conf s p)) d" for s p
    using never_run [OF never_append_resolv_conf]
    by (intro steady_quiet) (auto simp: on_files_def split: prod.split)
  moreover have "steady (ret ()) d" by (rule steady_quiet) simp_all
  ultimately show ?thesis
    unfolding configure_host_def
    by (intro steady_seq steady_on_sys channel_op.calm_op_axioms) simp_all
qed

lemma steady_run:
  assumes "\<And>m. 4 \<le> length (sha256 m)"
  shows "steady (run sha256 st) (set_ip_wait st)"
proof -
  have opened: "steady (on_sys (rpc_open path)) d" for path d
    by unfold_locales
      (auto simp: on_sys_def rpc_open_def open_port_def seq_def Let_def split: prod.split list.split option.split)
  have version: "steady (ignore_error (on_sys firmware_version)) d" for d
  proof
    fix h :: host
    obtain x t where run: "firmware_version (h_sys h) = (x, t)" by force
    from version_op.evolves [OF run] run
    show "os_clock (h_sys (snd (ignore_error (on_sys firmware_version) h))) = os_clock (h_sys h)"
      by (auto simp: ignore_error_def on_sys_def evolves_def split: sum.split stop.split)
    show "fst (ignore_error (on_sys firmware_version) h) \<noteq> Inl Panic"
      if "clock_ok READY_TIMEOUT (h_sys h)"
      using version_op.no_panic [OF that] run
      by (auto simp: ignore_error_def on_sys_def split: sum.split stop.split)
  qed
  have prepare: "steady (prepare_modem sha256 st) d" for d
    unfolding prepare_modem_def
    by (intro steady_seq steady_on_sys opened version ready_op.calm_op_axioms init_op.calm_op_axioms
        mode_op.calm_op_axioms calm_fcc_unlock assms)
  have stop: "steady (raise e :: unit main) d" for e d by (rule steady_quiet) simp_all
  have found: "steady (case found of None \<Rightarrow> raise NoIp | Some (address, dns) \<Rightarrow> configure_host st address dns) d"
    for found d
    using steady_configure_host [of st] by (cases found) (auto simp only: option.case prod.case split_paired_all
        intro!: stop)
  show ?thesis
    unfolding run_def
  proof (intro steady_seq prepare steady_on_sys attach_op.calm_op_axioms)
    fix attached
    have "steady (seq (on_sys (wait_for_ip (set_ip_wait st) (set_ip_fetch_interval st)))
        (\<lambda>found. case found of None \<Rightarrow> raise NoIp | Some (address, dns) \<Rightarrow> configure_host st address dns))
        (set_ip_wait st)"
      by (intro steady_seq steady_wait_for_ip found)
    with stop show "steady (if \<not> attached then raise AttachRefused else
        seq (on_sys (wait_for_ip (set_ip_wait st) (set_ip_fetch_interval st)))
        (\<lambda>found. case found of None \<Rightarrow> raise NoIp | Some (address, dns) \<Rightarrow> configure_host st address dns))
        (set_ip_wait st)"
      by simp
  qed
qed

section \<open>What happens to the host\<close>

lemma on_sys_host: "h_net (snd (on_sys m h)) = h_net h" "h_files (snd (on_sys m h)) = h_files h"
  by (simp_all add: on_sys_def split: prod.split)

lemma on_sys_run: "on_sys m h = (x, g) \<Longrightarrow> m (h_sys h) = (x, h_sys g) \<and> h_net g = h_net h \<and> h_files g = h_files h"
  by (auto simp: on_sys_def split: prod.splits)

lemma on_net_run: "on_net m h = (x, g) \<Longrightarrow> m (h_net h) = (x, h_net g) \<and> h_sys g = h_sys h \<and> h_files g = h_files h"
  by (auto simp: on_net_def split: prod.splits)

lemma prepare_modem_host:
  assumes "prepare_modem sha256 st h = (x, g)"
  shows "h_net g = h_net h" "h_files g = h_files h"
proof -
  have "h_net g = h_net h \<and> h_files g = h_files h"
    if "ignore_error (on_sys m) h = (x, g)" for m :: "string port" and h g and x :: "(error, unit) res"
    using that on_sys_host [of m h]
    by (auto simp: ignore_error_def split: prod.splits sum.splits stop.splits)
  then show "h_net g = h_net h" "h_files g = h_files h"
    using assms unfolding prepare_modem_def
    by (elim seq_elim; force dest!: on_sys_run)+
qed

lemma build_runtime_run:
  "build_runtime h = (x, g) \<Longrightarrow> h_net g = h_net h \<and> h_files g = h_files h \<and> h_sys g = h_sys h"
  by (auto simp: build_runtime_def split: list.splits option.splits)

lemma configure_host_run:
  assumes "configure_host st address dns h = (x, g)"
  shows "(h_net g = h_net h \<and> h_files g = h_files h \<and> (\<exists>e. x = Inl e)) \<or>
    (\<exists>y. configure (set_interface st) address (set_metric st) (set_default_route st) (h_net h) = (y, h_net g) \<and>
       h_files g = (if y = Inr () \<and> set_write_resolv st
         then snd (append_resolv_conf dns (set_resolv_conf st) (h_files h)) else h_files h) \<and>
       (h_sys g = h_sys h \<and> (\<exists>e. x = Inl e) \<or>
        y = Inr () \<and> open_data_channel (set_datachannel_path st) (h_sys h) = (x, h_sys g)))"
  using assms unfolding configure_host_def
proof (cases rule: seq_elim)
  case (stop e)
  with build_runtime_run [OF stop(1)] show ?thesis by (intro disjI1) simp
next
  case (go a u)
  note u = build_runtime_run [OF go(1)]
  from go(2) show ?thesis
  proof (cases rule: seq_elim)
    case (stop e)
    with on_net_run [OF stop(1)] u show ?thesis by (intro disjI2 exI [of _ "Inl e"]) simp
  next
    case (go b v)
    note v = on_net_run [OF go(1)]
    have r: "h_net w = h_net v \<and> h_sys w = h_sys v \<and>
        h_files w = (if set_write_resolv st
          then snd (append_resolv_conf dns (set_resolv_conf st) (h_files h)) else h_files h)"
      if "(if set_write_resolv st then on_files (append_resolv_conf dns (set_resolv_conf st)) else ret ()) v = (y, w)"
      for y w
      using that u v by (auto simp: on_files_def ret_def split: if_splits prod.splits)
    from go(2) show ?thesis
    proof (cases rule: seq_elim)
      case (stop e)
      with r [OF stop(1)] u v show ?thesis by (intro disjI2 exI [of _ "Inr ()"]) simp
    next
      case (go c w)
      with r [OF go(1)] on_sys_run [OF go(2)] u v show ?thesis
        by (intro disjI2 exI [of _ "Inr ()"]) auto
    qed
  qed
qed

section \<open>A complete run\<close>

lemma serves_rpc_open:
  assumes "serves n bs s" and "os_opens s = None # as" and "inbuf s = []"
  shows "\<exists>t. rpc_open path s = (Inr (), t) \<and> serves n bs t"
  using assms
  by (simp add: rpc_open_def open_port_def seq_def log_call_def serves_def stream_def fed_def prompt_def
      pending_def clock_ok_def)

definition ready_script :: "byte list" where
  \<comment> \<open>The probe is answered, and all seven initialisation commands.\<close>
  "ready_script = packet CSI_FCC_LOCK_QUERY_REQ (ints [0, 0, 1]) Async @
     concat (map (\<lambda>c. packet c (ints [0]) Sync) init_commands)"

definition unlock_script :: "byte list" where
  \<comment> \<open>The modem is locked, sends the challenge 7 and accepts the answer.\<close>
  "unlock_script = packet CSI_FCC_LOCK_QUERY_REQ (ints [0, 0, 1]) Async @
     packet CSI_FCC_LOCK_GEN_CHALLENGE_REQ (ints [0, 7]) Async @
     packet CSI_FCC_LOCK_VER_CHALLENGE_REQ (ints [1]) Async"

definition attach_script :: "byte list" where
  "attach_script = packet UTA_MS_CALL_PS_ATTACH_APN_CONFIG_REQ (ints [0]) Async @
     packet UTA_MS_NET_ATTACH_REQ (ints [0, 0]) Async"

definition channel_script :: "byte list" where
  "channel_script = packet UTA_MS_CALL_PS_CONNECT_REQ (ints [7, 8]) Async @
     packet UTA_RPC_PS_CONNECT_TO_DATACHANNEL_REQ (ints [0]) Sync @
     packet UTA_RPC_PS_CONNECT_SETUP_REQ (ints [0]) Sync"

definition run_script :: "byte list" where
  \<comment> \<open>Everything a modem says that lets a run succeed; the version is not decodable.\<close>
  "run_script = ready_script @ unlock_script @ mode_conversation @
     packet UTA_SYS_GET_INFO (ints [0]) Sync @ attach_script @ ip_conversation @ channel_script"

lemma script_ok:
  "answer_ok CSI_FCC_LOCK_QUERY_REQ (ints [0, 0, 1]) [ValInt 0, ValInt 0, ValInt 1]"
  "answer_ok CSI_FCC_LOCK_GEN_CHALLENGE_REQ (ints [0, 7]) [ValInt 0, ValInt 7]"
  "answer_ok CSI_FCC_LOCK_VER_CHALLENGE_REQ (ints [1]) [ValInt 1]"
  "answer_ok UTA_SYS_GET_INFO (ints [0]) [ValInt 0]"
  "answer_ok UTA_MS_CALL_PS_ATTACH_APN_CONFIG_REQ (ints [0]) [ValInt 0]"
  "answer_ok UTA_MS_NET_ATTACH_REQ (ints [0, 0]) [ValInt 0, ValInt 0]"
  "answer_ok UTA_MS_CALL_PS_CONNECT_REQ (ints [7, 8]) [ValInt 7, ValInt 8]"
  "answer_ok UTA_RPC_PS_CONNECT_TO_DATACHANNEL_REQ (ints [0]) [ValInt 0]"
  "answer_ok UTA_RPC_PS_CONNECT_SETUP_REQ (ints [0]) [ValInt 0]"
  using ints_ok [of _ "[0, 0, 1]"] ints_ok [of _ "[0, 7]"] ints_ok [of _ "[1]"] ints_ok [of _ "[0]"]
    ints_ok [of _ "[0, 0]"] ints_ok [of _ "[7, 8]"]
  by (simp_all add: command_defs)

lemma script_values:
  "unpack ''nnn'' (ints [0, 0, 1]) = Inr [ValInt 0, ValInt 0, ValInt 1]"
  "unpack ''nn'' (ints [0, 7]) = Inr [ValInt 0, ValInt 7]"
  "unpack ''n'' (ints [1]) = Inr [ValInt 1]"
  "unpack ''nn'' (ints [0, 0]) = Inr [ValInt 0, ValInt 0]"
  "decode_values (ints [0]) = Inr [ValInt 0]"
  using ints_decode(2) [of "[0, 0, 1]"] ints_decode(2) [of "[0, 7]"] ints_decode(2) [of "[1]"]
    ints_decode(2) [of "[0, 0]"] ints_decode(1) [of "[0]"]
  by simp_all

lemma prepare_modem_serves:
  assumes "serves (13 + n) (ready_script @ unlock_script @ mode_conversation @
      packet UTA_SYS_GET_INFO (ints [0]) Sync @ rest) (h_sys h)"
    and "os_opens (h_sys h) = None # as" and "inbuf (h_sys h) = []" and "\<forall>m. 4 \<le> length (sha256 m)"
  shows "\<exists>t. prepare_modem sha256 st h = (Inr (), h\<lparr>h_sys := t\<rparr>) \<and> serves n rest t"
proof -
  note ok = script_ok
  note ind = mode_indication [of "[1]"] mode_conversation_ok
  have five: "5 + n = Suc (Suc (Suc (Suc (Suc n))))" by simp
  have short: "length (ints [0]) + 26 \<le> MAX_MESSAGE_LEN" by (simp add: MAX_MESSAGE_LEN_def)
  obtain s1 where s1: "rpc_open (set_rpc_port st) (h_sys h) = (Inr (), s1)"
    "serves (Suc (7 + (5 + n))) (packet CSI_FCC_LOCK_QUERY_REQ (ints [0, 0, 1]) Async @
      concat (map (\<lambda>c. packet c (ints [0]) Sync) init_commands) @
      unlock_script @ mode_conversation @ packet UTA_SYS_GET_INFO (ints [0]) Sync @ rest) s1"
    using serves_rpc_open [OF assms(1-3), of "set_rpc_port st"] by (auto simp: ready_script_def)
  obtain s2 where s2: "wait_ready s1 = (Inr (), s2)"
    "serves (7 + (5 + n)) (concat (map (\<lambda>c. packet c (ints [0]) Sync) init_commands) @
      unlock_script @ mode_conversation @ packet UTA_SYS_GET_INFO (ints [0]) Sync @ rest) s2"
    using serves_wait_ready [OF s1(2) ok(1)] by blast
  obtain s3 where s3: "initialize s2 = (Inr (), s3)"
    "serves (Suc (Suc (Suc (Suc (Suc n))))) (packet CSI_FCC_LOCK_QUERY_REQ (ints [0, 0, 1]) Async @
     packet CSI_FCC_LOCK_GEN_CHALLENGE_REQ (ints [0, 7]) Async @
     packet CSI_FCC_LOCK_VER_CHALLENGE_REQ (ints [1]) Async @
     mode_conversation @ packet UTA_SYS_GET_INFO (ints [0]) Sync @ rest) s3"
    using serves_initialize [OF s2(2) script_values(5)] five short by (auto simp: unlock_script_def)
  obtain s4 where s4: "fcc_unlock sha256 s3 = (Inr (), s4)"
    "serves (Suc (Suc n)) (packet UTA_MODE_SET_REQ (ints [0]) Sync @
      frame_for 0 UTA_MODE_SET_RSP_CB (ints [1]) @ packet UTA_SYS_GET_INFO (ints [0]) Sync @ rest) s4"
    using serves_fcc_locked [OF s3(2) ok(1,2,3) script_values(1) _ script_values(2,3)] assms(4)
    by (auto simp: mode_conversation_def)
  obtain s5 where s5: "set_mode 1 s4 = (Inr (), s5)"
    "serves (Suc n) (packet UTA_SYS_GET_INFO (ints [0]) Sync @ rest) s5"
    using serves_set_mode [OF s4(2), of "[]"] ind by fastforce
  obtain x s6 where s6: "firmware_version s5 = (x, s6)" "x \<noteq> Inl Panic" "x \<noteq> Inl Blocked"
    "serves n rest s6"
    using serves_firmware_version [OF s5(2) ok(4)] by blast
  have "ignore_error (on_sys firmware_version) (h\<lparr>h_sys := s5\<rparr>) = (Inr (), h\<lparr>h_sys := s6\<rparr>)"
    using s6(1-3) by (auto simp: ignore_error_def on_sys_def split: sum.split stop.split)
  with s1(1) s2(1) s3(1) s4(1) s5(1) s6(4) show ?thesis
    by (intro exI [of _ s6]) (simp add: prepare_modem_def on_sys_def seq_Inr)
qed

lemma append_one_server:
  assumes "fs_opens f = [None]" and "fs_writes f = [None, None]"
  shows "\<exists>g. append_resolv_conf \<lparr>dns_v4 = [a], dns_v6 = []\<rparr> path f = (Inr (), g)"
  using assms by (simp add: append_resolv_conf_def open_append_def write_text_def seq_def)

lemma configure_host_serves:
  assumes "serves (3 + n) (channel_script @ rest) (h_sys h)" and "h_runtimes h = None # rs"
    and "h_net h = granting_kernel index as" and "fs_opens (h_files h) = [None]"
    and "fs_writes (h_files h) = [None, None]" and "length (set_datachannel_path st) \<le> 23"
  shows "\<exists>g. configure_host st address \<lparr>dns_v4 = [a], dns_v6 = []\<rparr> h = (Inr (), g)"
proof -
  note ok = script_ok
  obtain net where net: "configure (set_interface st) address (set_metric st) (set_default_route st)
      (granting_kernel index as) = (Inr (), net)"
    using configure_grants by blast
  obtain f where f: "append_resolv_conf \<lparr>dns_v4 = [a], dns_v6 = []\<rparr> (set_resolv_conf st) (h_files h) = (Inr (), f)"
    using append_one_server [OF assms(4,5)] by blast
  have "serves (Suc (Suc (Suc n))) (packet UTA_MS_CALL_PS_CONNECT_REQ (ints [7, 8]) Async @
     packet UTA_RPC_PS_CONNECT_TO_DATACHANNEL_REQ (ints [0]) Sync @
     packet UTA_RPC_PS_CONNECT_SETUP_REQ (ints [0]) Sync @ rest) (h_sys h)"
    using assms(1) by (simp add: channel_script_def numeral_3_eq_3)
  from serves_open_data_channel [OF this ok(7,8,9) _ assms(6)] obtain s where
    "open_data_channel (set_datachannel_path st) (h_sys h) = (Inr (), s)" by auto
  with net f assms(2,3) show ?thesis
    by (simp add: configure_host_def build_runtime_def on_net_def on_files_def on_sys_def seq_Inr)
qed

lemma run_serves:
  assumes "serves 20 run_script (h_sys h)" and "os_opens (h_sys h) = None # os" and "inbuf (h_sys h) = []"
    and "h_runtimes h = None # rs" and "h_net h = granting_kernel index as" and "fs_opens (h_files h) = [None]"
    and "fs_writes (h_files h) = [None, None]" and "\<forall>m. 4 \<le> length (sha256 m)"
    and "length (set_apn st) \<le> APN_MAX_LEN" and "length (set_datachannel_path st) \<le> 23"
    and "set_ip_wait st \<le> READY_TIMEOUT"
  shows "\<exists>g. run sha256 st h = (Inr (), g)"
proof -
  note ok = script_ok
  have "serves (13 + (2 + (2 + 3))) (ready_script @ unlock_script @ mode_conversation @
      packet UTA_SYS_GET_INFO (ints [0]) Sync @ attach_script @ ip_conversation @ channel_script) (h_sys h)"
    using assms(1) by (simp add: run_script_def)
  from prepare_modem_serves [OF this assms(2,3,8), of st] obtain s1 where
    s1: "prepare_modem sha256 st h = (Inr (), h\<lparr>h_sys := s1\<rparr>)"
      "serves (Suc (Suc (2 + 3))) (packet UTA_MS_CALL_PS_ATTACH_APN_CONFIG_REQ (ints [0]) Async @
         packet UTA_MS_NET_ATTACH_REQ (ints [0, 0]) Async @ ip_conversation @ channel_script) s1"
    by (auto simp: attach_script_def)
  obtain s2 where s2: "attach (set_apn st) s1 = (Inr True, s2)"
      "serves (Suc (Suc 3)) (ip_conversation @ channel_script) s2"
    using serves_attach [OF s1(2) ok(5,6) script_values(4) _ assms(9)] by auto
  have "clock_ok (set_ip_wait st) s2"
    using s2(2) assms(11) clock_ok_mono by (auto simp: serves_def)
  from ip_conversation_ok(2) [OF s2(2) this] obtain s3 where
    s3: "wait_for_ip (set_ip_wait st) (set_ip_fetch_interval st) s2 =
      (Inr (Some ((10, 0, 0, 7), \<lparr>dns_v4 = [(9, 9, 9, 9)], dns_v6 = []\<rparr>)), s3)"
      "serves (3 + 0) (channel_script @ []) s3"
    by auto
  obtain g where "configure_host st (10, 0, 0, 7) \<lparr>dns_v4 = [(9, 9, 9, 9)], dns_v6 = []\<rparr>
      (h\<lparr>h_sys := s3\<rparr>) = (Inr (), g)"
    using configure_host_serves [of 0 "[]" "h\<lparr>h_sys := s3\<rparr>" rs index as st "(10, 0, 0, 7)"
        "(9, 9, 9, 9)"] s3(2) assms(4-7,10) by auto
  with s1(1) s2(1) s3(1) show ?thesis
    by (simp add: run_def on_sys_def seq_Inr)
qed

lemma run_split:
  assumes "run sha256 st h = (x, g)"
  shows "(h_net g = h_net h \<and> h_files g = h_files h \<and> (\<exists>e. x = Inl e)) \<or>
    (\<exists>k v w n address dns. prepare_modem sha256 st h = (Inr (), k) \<and>
       attach (set_apn st) (h_sys k) = (Inr True, v) \<and>
       wait_for_ip (set_ip_wait st) (set_ip_fetch_interval st) v = (Inr (Some (address, dns)), w) \<and>
       configure_host st address dns n = (x, g) \<and> h_sys n = w \<and> h_net n = h_net h \<and>
       h_files n = h_files h)"
proof -
  let ?found = "\<lambda>found. case found of None \<Rightarrow> raise NoIp | Some (address, dns) \<Rightarrow> configure_host st address dns"
  let ?ip = "seq (on_sys (wait_for_ip (set_ip_wait st) (set_ip_fetch_interval st))) ?found"
  from assms have "seq (prepare_modem sha256 st) (\<lambda>_. seq (on_sys (attach (set_apn st)))
      (\<lambda>attached. if \<not> attached then raise AttachRefused else ?ip)) h = (x, g)"
    by (simp add: run_def)
  then consider e where "prepare_modem sha256 st h = (Inl e, g)" "x = Inl e"
    | k where "prepare_modem sha256 st h = (Inr (), k)" "seq (on_sys (attach (set_apn st)))
      (\<lambda>attached. if \<not> attached then raise AttachRefused else ?ip) k = (x, g)"
    by (rule seq_elim) auto
  then show ?thesis
  proof cases
    case 1
    with prepare_modem_host [OF 1(1)] show ?thesis by simp
  next
    case (2 k)
    note prep = 2(1) and k = prepare_modem_host [OF 2(1)]
    from 2(2) consider e where "on_sys (attach (set_apn st)) k = (Inl e, g)" "x = Inl e"
      | l where "on_sys (attach (set_apn st)) k = (Inr False, l)" "x = Inl (Err AttachRefused)" "g = l"
      | l where "on_sys (attach (set_apn st)) k = (Inr True, l)" "?ip l = (x, g)"
      by (rule seq_elim) (auto split: if_splits)
    then show ?thesis
    proof cases
      case (3 l)
      note l = on_sys_run [OF 3(1)]
      from 3(2) consider e where "on_sys (wait_for_ip (set_ip_wait st) (set_ip_fetch_interval st)) l = (Inl e, g)" "x = Inl e"
        | m found where "on_sys (wait_for_ip (set_ip_wait st) (set_ip_fetch_interval st)) l = (Inr found, m)"
          "?found found m = (x, g)"
        by (rule seq_elim) auto
      then show ?thesis
      proof cases
        case (2 m found)
        note m = on_sys_run [OF 2(1)]
        show ?thesis
        proof (cases found)
          case None
          with 2(2) m l k show ?thesis by auto
        next
          case (Some f)
          obtain address dns where f: "f = (address, dns)" by (cases f)
          have "configure_host st address dns m = (x, g)" using 2(2) Some f by simp
          moreover have "h_net m = h_net h" "h_files m = h_files h" using k l m by simp_all
          ultimately show ?thesis using prep l m unfolding Some f by blast
        qed
      qed (use k l on_sys_run in fastforce)
    qed (use k on_sys_run in fastforce)+
  qed
qed

section \<open>Errors of the settings\<close>

lemma read_config_error: "read_config parse_toml e p = Inl x \<Longrightarrow> \<exists>msg. x = Err (Config msg)"
  by (auto simp: read_config_def split: sum.splits)

lemma resolve_error: "resolve parse_toml e c = Inl x \<Longrightarrow> \<exists>msg. x = Err (Config msg)"
  by (auto simp: resolve_def resolve_with_def rbind_def ok_or_def load_file_def load_candidates_find
      split: sum.splits option.splits dest: read_config_error)

section \<open>Properties\<close>

text \<open>C2: The conversation of a run: a successful run has sent the packets of one word of \<open>run_words\<close>
  (probes, the seven initialisation commands, the unlocking, the mode, the version, one attach
  configuration with one or two attach requests, one or more address queries, the three data-channel
  requests), and a run that stops for any reason has sent an initial part of one.\<close>

theorem run_conversation:
  "case run sha256 st h of
     (Inr _, g) \<Rightarrow> \<exists>w \<in> run_words st. sent (h_sys g) = sent (h_sys h) @ w
   | (Inl _, g) \<Rightarrow> \<exists>p q. p @ q \<in> run_words st \<and> sent (h_sys g) = sent (h_sys h) @ p"
proof (cases "run sha256 st h")
  case (Pair x g)
  then show ?thesis using run_words.word run_words.prefix by (cases x) auto
qed

text \<open>C3: The host is touched last: a run either leaves the netlink state and every file as they were
  and fails, or from its start \<open>h\<close> the modem was prepared, from there attached, and from there gave a
  specified address, and exactly that address is configured; the resolver configuration is changed
  only if that succeeded and the settings ask for it, and then exactly by appending the name servers
  found; the data channel is opened last, from the state in which the address was found, and its
  result is that of the run.\<close>

theorem run_touches_host_last:
  "case run sha256 st h of (x, g) \<Rightarrow>
     (h_net g = h_net h \<and> h_files g = h_files h \<and> (\<exists>e. x = Inl e)) \<or>
     (\<exists>k v w address dns y.
        prepare_modem sha256 st h = (Inr (), k) \<and>
        attach (set_apn st) (h_sys k) = (Inr True, v) \<and>
        wait_for_ip (set_ip_wait st) (set_ip_fetch_interval st) v = (Inr (Some (address, dns)), w) \<and>
        address \<noteq> UNSPECIFIED \<and>
        configure (set_interface st) address (set_metric st) (set_default_route st) (h_net h) =
          (y, h_net g) \<and>
        h_files g = (if y = Inr () \<and> set_write_resolv st
          then snd (append_resolv_conf dns (set_resolv_conf st) (h_files h)) else h_files h) \<and>
        (h_sys g = w \<and> (\<exists>e. x = Inl e) \<or>
         y = Inr () \<and> open_data_channel (set_datachannel_path st) w = (x, h_sys g)))"
proof (cases "run sha256 st h")
  case (Pair x g)
  from run_split [OF Pair] show ?thesis
  proof (elim disjE exE conjE)
    fix k v w n address dns
    assume a: "prepare_modem sha256 st h = (Inr (), k)"
      "attach (set_apn st) (h_sys k) = (Inr True, v)"
      "wait_for_ip (set_ip_wait st) (set_ip_fetch_interval st) v = (Inr (Some (address, dns)), w)"
    assume c: "configure_host st address dns n = (x, g)"
      and n: "h_sys n = w" "h_net n = h_net h" "h_files n = h_files h"
    have "address \<noteq> UNSPECIFIED" using wait_for_ip_specified [OF a(3)] .
    with configure_host_run [OF c] show ?thesis
      unfolding Pair prod.case n using a by (elim disjE) blast+
  qed (simp add: Pair)
qed

text \<open>C18: A run does not panic, whatever the firmware, the kernel and the file system answer, while the
  clock is far enough from the end of its range for the timeouts and the digests have at least four
  bytes.\<close>

theorem run_never_panics:
  assumes "clock_ok READY_TIMEOUT (h_sys h)" and "clock_ok (set_ip_wait st) (h_sys h)"
    and "\<forall>m. 4 \<le> length (sha256 m)"
  shows "fst (run sha256 st h) \<noteq> Inl Panic"
  using steady.no_panic [OF steady_run] assms by blast

definition default_settings :: settings where
  \<comment> \<open>What an APN alone resolves to.\<close>
  "default_settings =
     \<lparr>set_apn = ''internet'', set_interface = DEFAULT_INTERFACE, set_rpc_port = DEFAULT_RPC_PORT,
      set_default_route = True, set_metric = DEFAULT_METRIC, set_ip_fetch_interval = nanos 1,
      set_ip_wait = nanos 120, set_write_resolv = True, set_resolv_conf = DEFAULT_RESOLV_CONF,
      set_datachannel_path = DEFAULT_DATACHANNEL\<rparr>"

definition willing_host :: host where
  \<comment> \<open>A modem with the script of a complete run and a kernel and file system that grant everything.\<close>
  "willing_host =
     \<lparr>h_sys = (peer_sys 20 run_script)\<lparr>os_opens := [None]\<rparr>, h_net = granting_kernel 3 [],
      h_files = \<lparr>fs_content = \<lambda>_. None, fs_opens = [None], fs_writes = [None, None]\<rparr>,
      h_runtimes = [None], h_stdout = [], h_stderr = [], h_log = None\<rparr>"

lemma willing_host_serves:
  "serves 20 run_script (h_sys willing_host)" "os_opens (h_sys willing_host) = [None]"
  "inbuf (h_sys willing_host) = []" "clock_ok (nanos 120) (h_sys willing_host)"
proof -
  have "run_script \<noteq> []" by (simp add: run_script_def ready_script_def)
  from peer_serves [OF this, of 20] show "serves 20 run_script (h_sys willing_host)"
    by (simp add: willing_host_def serves_def stream_def fed_def prompt_def pending_def clock_ok_def)
  show "clock_ok (nanos 120) (h_sys willing_host)"
    using peer_sys_facts(5) [of 20 run_script] by (simp add: willing_host_def clock_ok_def)
qed (simp_all add: willing_host_def peer_sys_def quiet_sys_def)

theorem run_never_panics_witness:
  "fst (run (\<lambda>m. m @ [0, 0, 0, 0]) default_settings willing_host) \<noteq> Inl Panic"
  using run_never_panics [of willing_host default_settings "\<lambda>m. m @ [0, 0, 0, 0]"]
    willing_host_serves(4)
  by (simp add: default_settings_def READY_TIMEOUT_def)

text \<open>C1: A run succeeds when everyone cooperates: with a modem whose byte stream holds the script of
  answers, however it is cut into reads, a kernel that has the interface and grants every request and a
  file system that takes the name server, \<open>run\<close> returns Ok.  The settings are any with an APN and a
  data-channel path that fit their fields and a wait of at most two minutes.\<close>

theorem run_succeeds:
  assumes "serves 20 run_script (h_sys h)" and "os_opens (h_sys h) = None # os" and "inbuf (h_sys h) = []"
    and "h_runtimes h = None # rs" and "h_net h = granting_kernel index as"
    and "fs_opens (h_files h) = [None]" and "fs_writes (h_files h) = [None, None]"
    and "\<forall>m. 4 \<le> length (sha256 m)"
    and "length (set_apn st) \<le> APN_MAX_LEN" and "length (set_datachannel_path st) \<le> 23"
    and "set_ip_wait st \<le> READY_TIMEOUT"
  shows "\<exists>g. run sha256 st h = (Inr (), g)"
  using assms by (rule run_serves)

theorem run_succeeds_witness:
  "\<exists>g. run (\<lambda>m. m @ [0, 0, 0, 0]) default_settings willing_host = (Inr (), g)"
  using run_succeeds [of willing_host "[]" "[]" 3 "[]" "\<lambda>m. m @ [0, 0, 0, 0]" default_settings]
    willing_host_serves(1-3)
  by (simp add: default_settings_def DEFAULT_DATACHANNEL_def APN_MAX_LEN_def READY_TIMEOUT_def)
    (simp add: willing_host_def)

text \<open>C31: The exit code: 0 after \<open>--version\<close> or a successful run, 1 for settings that cannot be resolved,
  2 when the network refuses the attach or assigns no address, 1 for every other error and 101 for a
  panic; an error is printed to the standard error stream, prefixed with \<open>error: \<close>, and nothing else
  is.  Before that the log subscriber is installed, with the filter of \<open>RUST_LOG\<close> if it is a valid one
  and \<open>info\<close> otherwise.\<close>

theorem main_exit_code:
  "let g = h\<lparr>h_log := Some
       \<lparr>sub_filter = (case env_rust_log e of None \<Rightarrow> ''info''
          | Some text \<Rightarrow> if valid_filter text then text else ''info''), sub_target = False\<rparr>\<rparr>;
     outcome = main sha256 parse_toml valid_filter version e c h
   in
   if h_log h \<noteq> None then outcome = (Some 101, h)
   else if cli_version c
   then outcome = (Some 0, g\<lparr>h_stdout := h_stdout g @ ''xmmrpc '' @ version @ newline\<rparr>)
   else case resolve parse_toml e c of
     Inl x \<Rightarrow> \<exists>msg. x = Err (Config msg) \<and> outcome =
       (Some 1, g\<lparr>h_stderr := h_stderr g @ ''error: configuration error: '' @ msg @ newline\<rparr>)
   | Inr st \<Rightarrow> outcome =
       (case run sha256 st g of
          (Inr _, t) \<Rightarrow> (Some 0, t)
        | (Inl (Err err), t) \<Rightarrow>
            (Some (if err = AttachRefused \<or> err = NoIp then 2 else 1),
             t\<lparr>h_stderr := h_stderr t @ ''error: '' @ fmt_error err @ newline\<rparr>)
        | (Inl Panic, t) \<Rightarrow> (Some 101, t)
        | (Inl Blocked, t) \<Rightarrow> (None, t))"
proof (cases "resolve parse_toml e c")
  case (Inl x)
  with resolve_error [OF Inl] show ?thesis
    by (auto simp: main_def init_tracing_def report_error_def Let_def)
next
  case (Inr st)
  have code: "exit_code err = (if err = AttachRefused \<or> err = NoIp then 2 else 1)" for err
    by (cases err) simp_all
  show ?thesis
    using Inr
    by (simp add: main_def init_tracing_def finish_def report_error_def code Let_def
        split: prod.split sum.split stop.split)
qed

end
