(* ===== verification/Waiting.thy ===== *)
theory Waiting
  imports Bringup
begin

text \<open>
  How long \<open>wait_ready\<close> of \<open>src/src/modem.rs\<close> waits: a modem that never answers is given up after at
  most forty-one probes, one that boots late is heard by the first probe it answers.
\<close>

section \<open>A silent modem\<close>

definition silent :: "nat \<Rightarrow> sys \<Rightarrow> bool" where
  \<comment> \<open>The next \<open>n\<close> requests and openings are accepted and nothing ever arrives.\<close>
  "silent n s \<longleftrightarrow>
     inbuf s = [] \<and> set (os_polls s) \<subseteq> {PollReady 0} \<and> set (os_writes s) \<subseteq> {None} \<and>
     set (os_opens s) \<subseteq> {None} \<and>
     n \<le> length (os_polls s) \<and> n \<le> length (os_writes s) \<and> n \<le> length (os_opens s)"

lemma silent_probe:
  assumes "silent (Suc n) s" and "clock_ok timeout s"
  obtains t where "execute_with_timeout cmd payload m timeout s = (Inl (Err Timeout), t)"
    "silent n t" "os_opens t = os_opens s" "os_clock t = os_clock s" "os_ticks t = os_ticks s + 2"
    "sent t = sent s @ [build_header cmd (length payload) m @ payload]" "rpc_path t = rpc_path s"
proof -
  obtain ps ws where ps: "os_polls s = PollReady 0 # ps" and ws: "os_writes s = None # ws"
    using assms(1) by (cases "os_polls s"; cases "os_writes s") (auto simp: silent_def)
  have add: "instant_add (os_clock s (os_ticks s)) timeout =
      (Inr (os_clock s (os_ticks s) + timeout) :: (error, nat) res)"
    using assms(2) by (simp add: instant_add_def clock_ok_def)
  show thesis
    by (rule that [of "snd (execute_with_timeout cmd payload m timeout s)"])
      (use assms(1) ps ws add in \<open>auto simp: silent_def execute_with_timeout_def write_all_def
        execute_loop.simps recv_inner_def read_message_def instant_now_def read_message_loop.simps
        buffered_frame_def fill_buffer_def wait_readable_def poll_port_def seq_def Let_def
        sent_log_call\<close>)
qed


lemma silent_reopen:
  assumes "silent n s" and "n < length (os_opens s)"
  obtains t where "reopen s = (Inr (), t)" "silent n t" "os_clock t = os_clock s"
    "os_ticks t = os_ticks s" "sent t = sent s"
proof -
  obtain os where "os_opens s = None # os"
    using assms by (cases "os_opens s") (auto simp: silent_def)
  with assms show thesis
    by (intro that [of "snd (reopen s)"])
      (auto simp: reopen_def open_port_def seq_def silent_def sent_log_call Let_def)
qed

lemma silent_wait_ready_loop:
  assumes "silent (Suc n) s" and "clock_ok READY_PROBE_TIMEOUT s"
    and "j \<le> n" and "deadline \<le> os_clock s (os_ticks s + 3 * j + 2)"
  shows "\<exists>t k. wait_ready_loop deadline s = (Inl (Err Timeout), t) \<and> k \<le> n \<and>
    sent t = sent s @ replicate (Suc k) probe"
  using assms
proof (induction n arbitrary: s j)
  case (0 s j)
  obtain u where u: "execute_with_timeout CSI_FCC_LOCK_QUERY_REQ (pack_u32 0) Async READY_PROBE_TIMEOUT s =
      (Inl (Err Timeout), u)" "os_clock u = os_clock s" "os_ticks u = os_ticks s + 2"
      "sent u = sent s @ [probe]"
    by (rule silent_probe [OF "0.prems"(1,2)]) (auto simp: packet_def)
  with "0.prems"(3,4) show ?case
    by (subst wait_ready_loop.simps) (auto simp: instant_now_def seq_def)
next
  case (Suc n s j)
  obtain u where u: "execute_with_timeout CSI_FCC_LOCK_QUERY_REQ (pack_u32 0) Async READY_PROBE_TIMEOUT s =
      (Inl (Err Timeout), u)" "silent (Suc n) u" "os_opens u = os_opens s" "os_clock u = os_clock s"
      "os_ticks u = os_ticks s + 2" "sent u = sent s @ [probe]"
    by (rule silent_probe [OF Suc.prems(1,2)]) (auto simp: packet_def)
  let ?v = "u\<lparr>os_ticks := os_ticks s + 3\<rparr>"
  have now: "instant_now u = (Inr (os_clock s (os_ticks s + 2)), ?v)"
    using u(4,5) by (simp add: instant_now_def)
  show ?case
  proof (cases "deadline \<le> os_clock s (os_ticks s + 2)")
    case True
    with u(1,6) now show ?thesis
      by (subst wait_ready_loop.simps) (auto simp: seq_def)
  next
    case False
    have "silent (Suc n) ?v" using u(2) by (simp add: silent_def)
    moreover have "Suc n < length (os_opens ?v)" using Suc.prems(1) u(3) by (simp add: silent_def)
    ultimately obtain w where w: "reopen ?v = (Inr (), w)" "silent (Suc n) w"
        "os_clock w = os_clock ?v" "os_ticks w = os_ticks ?v" "sent w = sent ?v"
      by (rule silent_reopen) blast
    from False Suc.prems(4) have "0 < j" by (cases j) auto
    then have j: "j - 1 \<le> n" "os_ticks w + 3 * (j - 1) + 2 = os_ticks s + 3 * j + 2"
      using Suc.prems(3) w(4) by simp_all
    have "clock_ok READY_PROBE_TIMEOUT w" using Suc.prems(2) w(3) u(4) by (simp add: clock_ok_def)
    then obtain t k where "wait_ready_loop deadline w = (Inl (Err Timeout), t)" "k \<le> n"
        "sent t = sent w @ replicate (Suc k) probe"
      using Suc.IH [OF w(2) _ j(1)] j(2) Suc.prems(4) w(3) u(4) by auto
    moreover from this have "wait_ready_loop deadline s = (Inl (Err Timeout), t)"
      using u(1) now w(1) False by (subst wait_ready_loop.simps) (simp add: seq_def)
    ultimately show ?thesis using u(6) w(5) by (intro exI [of _ t] exI [of _ "Suc k"]) simp
  qed
qed

lemma paced_clock:
  fixes c :: "nat \<Rightarrow> nat"
  assumes "\<forall>j < n. c (i + 3 * j) + d \<le> c (i + 3 * j + 3)" and "k \<le> n"
  shows "c i + k * d \<le> c (i + 3 * k)"
  using assms(2)
proof (induction k)
  case (Suc k)
  moreover from Suc.prems assms(1) have "c (i + 3 * k) + d \<le> c (i + 3 * k + 3)" by simp
  ultimately show ?case by (simp add: add.commute add.left_commute)
qed simp

text \<open>
  A clock that never goes back and a \<open>poll\<close> that sleeps for the milliseconds it was asked for: an
  unanswered probe then takes its three seconds but for the part of a millisecond that the conversion
  of \<open>wait_readable\<close> drops.
\<close>

lemma unanswered_pace:
  fixes c :: "nat \<Rightarrow> nat"
  assumes "mono c" and "c (i + 2) + 1000000 * ((c (i + 1) + d - c (i + 2)) div 1000000) \<le> c (i + 3)"
  shows "c i + (d - 1000000) \<le> c (i + 3)"
proof -
  have "c i \<le> c (i + 1)" "c i \<le> c (i + 3)" using assms(1) by (auto intro: monoD)
  moreover have "x < 1000000 * (x div 1000000) + 1000000" for x :: nat by linarith
  from this [of "c (i + 1) + d - c (i + 2)"] assms(2)
  have "c (i + 1) + d - c (i + 2) + c (i + 2) < c (i + 3) + 1000000" by linarith
  ultimately show ?thesis by linarith
qed

section \<open>A modem that boots late\<close>

definition boots_late :: "nat \<Rightarrow> nat \<Rightarrow> byte list \<Rightarrow> sys \<Rightarrow> bool" where
  \<comment> \<open>The next \<open>k\<close> probes stay unanswered, each noticed before the deadline; the one after them is
    answered in time by a single frame.\<close>
  "boots_late k deadline raw s \<longleftrightarrow>
     inbuf s = [] \<and> os_reads s = [Inr raw] \<and> os_polls s = replicate k (PollReady 0) @ [PollReady 1] \<and>
     os_writes s = replicate (Suc k) None \<and> os_opens s = replicate k None \<and>
     (\<forall>j \<le> k. os_clock s (os_ticks s + 3 * j + 1) <
        os_clock s (os_ticks s + 3 * j) + READY_PROBE_TIMEOUT) \<and>
     (\<forall>j < k. os_clock s (os_ticks s + 3 * j + 2) < deadline)"

lemma boots_late_first:
  assumes "boots_late k deadline raw s"
  shows "os_clock s (Suc (os_ticks s)) < os_clock s (os_ticks s) + READY_PROBE_TIMEOUT"
proof -
  have "\<forall>j \<le> k. os_clock s (os_ticks s + 3 * j + 1) <
      os_clock s (os_ticks s + 3 * j) + READY_PROBE_TIMEOUT"
    using assms by (simp add: boots_late_def)
  from this [rule_format, of 0] show ?thesis by simp
qed

lemma boots_late_attempt:
  assumes "boots_late (Suc k) deadline raw s" and "clock_ok READY_PROBE_TIMEOUT s"
  shows "\<exists>t. wait_ready_loop deadline s = wait_ready_loop deadline t \<and> boots_late k deadline raw t \<and>
    os_clock t = os_clock s \<and> sent t = sent s @ [probe]"
proof -
  let ?c = "os_clock s" and ?k = "os_ticks s"
  have times: "?c (?k + 3 + 3 * j + 1) < ?c (?k + 3 + 3 * j) + READY_PROBE_TIMEOUT" if "j \<le> k" for j
  proof -
    have "\<forall>j \<le> Suc k. ?c (?k + 3 * j + 1) < ?c (?k + 3 * j) + READY_PROBE_TIMEOUT"
      using assms(1) by (simp add: boots_late_def)
    from this [rule_format, of "Suc j"] that show ?thesis by (simp add: algebra_simps)
  qed
  have checks: "?c (?k + 3 * j + 2) < deadline" if "j \<le> k" for j
    using assms(1) that by (simp add: boots_late_def less_Suc_eq_le)
  have add: "instant_add (?c ?k) READY_PROBE_TIMEOUT =
      (Inr (?c ?k + READY_PROBE_TIMEOUT) :: (error, nat) res)"
    using assms(2) by (simp add: instant_add_def clock_ok_def)
  note early = boots_late_first [OF assms(1)]
  define u where "u = snd (execute_with_timeout CSI_FCC_LOCK_QUERY_REQ (pack_u32 0) Async READY_PROBE_TIMEOUT s)"
  have u: "execute_with_timeout CSI_FCC_LOCK_QUERY_REQ (pack_u32 0) Async READY_PROBE_TIMEOUT s =
      (Inl (Err Timeout), u)"
    "inbuf u = []" "os_reads u = [Inr raw]" "os_polls u = replicate k (PollReady 0) @ [PollReady 1]"
    "os_writes u = replicate (Suc k) None" "os_opens u = replicate (Suc k) None" "os_clock u = ?c"
    "os_ticks u = ?k + 2" "sent u = sent s @ [probe]"
    using assms(1) add early
    by (auto simp: u_def boots_late_def execute_with_timeout_def write_all_def execute_loop.simps
        recv_inner_def read_message_def instant_now_def read_message_loop.simps
        buffered_frame_def fill_buffer_def wait_readable_def poll_port_def seq_def Let_def
        sent_log_call packet_def)
  define v where "v = u\<lparr>os_ticks := ?k + 3\<rparr>"
  have now: "instant_now u = (Inr (?c (?k + 2)), v)"
    using u(7,8) by (simp add: instant_now_def v_def)
  define w where "w = snd (reopen v)"
  have w: "reopen v = (Inr (), w)" "inbuf w = []" "os_reads w = [Inr raw]"
    "os_polls w = replicate k (PollReady 0) @ [PollReady 1]" "os_writes w = replicate (Suc k) None"
    "os_opens w = replicate k None" "os_clock w = ?c" "os_ticks w = ?k + 3" "sent w = sent s @ [probe]"
    using u by (auto simp: w_def v_def reopen_def open_port_def seq_def Let_def sent_log_call)
  have "wait_ready_loop deadline s = wait_ready_loop deadline w"
    using u(1) now w(1) checks [of 0] by (subst wait_ready_loop.simps) (simp add: seq_def)
  moreover have "boots_late k deadline raw w"
    unfolding boots_late_def w using times checks [of "Suc j" for j] by (simp add: algebra_simps)
  ultimately show ?thesis using w(7,9) by blast
qed

lemma boots_late_answer:
  assumes "boots_late 0 deadline raw s" and "clock_ok READY_PROBE_TIMEOUT s"
    and "is_frame raw" "parse raw = Inr r" "msg_kind r = Response" "length raw \<le> READ_BUF_LEN"
  shows "\<exists>t. wait_ready_loop deadline s = (Inr (), t) \<and> sent t = sent s @ [probe]"
proof -
  have "sluggish READY_PROBE_TIMEOUT [raw] s"
    using assms(1,2) boots_late_first [OF assms(1)]
    by (simp add: sluggish_def boots_late_def clock_ok_def Let_def)
  then obtain t where t: "execute_with_timeout CSI_FCC_LOCK_QUERY_REQ (pack_u32 0) Async READY_PROBE_TIMEOUT s =
      (Inr r, t)"
    using execute_sluggish [of READY_PROBE_TIMEOUT "[]" raw s "[]" "[]" r CSI_FCC_LOCK_QUERY_REQ
        "pack_u32 0" Async] assms
    by (auto simp: boots_late_def)
  from execute_with_timeout_sent [OF t] t show ?thesis
    by (subst wait_ready_loop.simps) simp
qed


lemma boots_late_loop:
  assumes "boots_late k deadline raw s" and "clock_ok READY_PROBE_TIMEOUT s"
    and "is_frame raw" "parse raw = Inr r" "msg_kind r = Response" "length raw \<le> READ_BUF_LEN"
  shows "\<exists>t. wait_ready_loop deadline s = (Inr (), t) \<and> sent t = sent s @ replicate (Suc k) probe"
  using assms(1,2)
proof (induction k arbitrary: s)
  case 0
  then show ?case using boots_late_answer assms(3-6) by fastforce
next
  case (Suc k)
  obtain u where "wait_ready_loop deadline s = wait_ready_loop deadline u" "boots_late k deadline raw u"
      "os_clock u = os_clock s" "sent u = sent s @ [probe]"
    using boots_late_attempt [OF Suc.prems] by blast
  with Suc.IH [of u] Suc.prems(2) show ?case by (simp add: clock_ok_def)
qed

section \<open>Properties\<close>

text \<open>C25: A dead modem is given up: when every request is accepted but nothing is ever answered,
  \<open>wait_ready\<close> returns \<open>Timeout\<close> after at most 41 probes; it neither waits forever nor panics. The
  hypotheses are those of the operating system: the clock is monotonic and not near the end of its
  range, and a \<open>poll\<close> that reports nothing has blocked for the whole milliseconds asked for, those
  left of the probe's three seconds. A probe may then take up to a millisecond less than three
  seconds, so that 40 of them can end just before the two minutes have passed.\<close>

theorem wait_ready_gives_up:
  assumes "silent 41 s" and "clock_ok READY_TIMEOUT s" and "mono (os_clock s)"
    and "\<forall>j < 41. os_clock s (os_ticks s + 3 * j + 2) +
           1000000 * ((os_clock s (os_ticks s + 3 * j + 1) + READY_PROBE_TIMEOUT -
             os_clock s (os_ticks s + 3 * j + 2)) div 1000000) \<le>
           os_clock s (os_ticks s + 3 * j + 3)"
  shows "\<exists>t k. wait_ready s = (Inl (Err Timeout), t) \<and> 1 \<le> k \<and> k \<le> 41 \<and>
    sent t = sent s @ replicate k (packet CSI_FCC_LOCK_QUERY_REQ (pack_u32 0) Async)"
proof -
  let ?s = "s\<lparr>os_ticks := os_ticks s + 1\<rparr>" and ?d = "os_clock s (os_ticks s) + READY_TIMEOUT"
  have "\<forall>j < 41. os_clock s (os_ticks s + 3 * j) + (READY_PROBE_TIMEOUT - 1000000) \<le>
      os_clock s (os_ticks s + 3 * j + 3)"
    using unanswered_pace [OF assms(3)] assms(4) by blast
  then have "os_clock s (os_ticks s) + 41 * (READY_PROBE_TIMEOUT - 1000000) \<le>
      os_clock s (os_ticks s + 3 * 41)"
    by (rule paced_clock) simp
  then have "?d \<le> os_clock ?s (os_ticks ?s + 3 * 40 + 2)"
    by (simp add: READY_TIMEOUT_def READY_PROBE_TIMEOUT_def nanos_def add.commute)
  moreover have "clock_ok READY_PROBE_TIMEOUT s"
    using assms(2) by (rule clock_ok_mono)
      (simp add: READY_TIMEOUT_def READY_PROBE_TIMEOUT_def nanos_def)
  then have "silent (Suc 40) ?s" "clock_ok READY_PROBE_TIMEOUT ?s"
    using assms(1) by (simp_all add: silent_def clock_ok_def)
  ultimately obtain t k where "wait_ready_loop ?d ?s = (Inl (Err Timeout), t)" "k \<le> 40"
      "sent t = sent s @ replicate (Suc k) probe"
    using silent_wait_ready_loop [of 40 ?s 40 ?d] by auto
  moreover from this(1) have "wait_ready s = (Inl (Err Timeout), t)"
    using assms(2)
    by (simp add: wait_ready_def instant_now_def instant_add_def clock_ok_def seq_def)
  ultimately show ?thesis by (intro exI [of _ t] exI [of _ "Suc k"]) simp
qed

theorem wait_ready_gives_up_witness:
  "\<exists>t k. wait_ready (quiet_sys\<lparr>os_clock := \<lambda>k. nanos (3 * (min k 130 div 3)),
       os_polls := replicate 41 (PollReady 0), os_writes := replicate 41 None,
       os_opens := replicate 41 None\<rparr>) = (Inl (Err Timeout), t) \<and>
     k \<le> 41 \<and> sent t = replicate k (packet CSI_FCC_LOCK_QUERY_REQ (pack_u32 0) Async)"
proof -
  define c where "c k = nanos (3 * (min k 130 div 3))" for k
  define s where "s = quiet_sys\<lparr>os_clock := c, os_polls := replicate 41 (PollReady 0),
    os_writes := replicate 41 None, os_opens := replicate 41 None\<rparr>"
  have "silent 41 s" by (simp add: silent_def s_def quiet_sys_def)
  moreover have "clock_ok READY_TIMEOUT s"
    unfolding clock_ok_def
  proof
    fix i
    have "os_clock s i \<le> nanos 130" by (simp add: s_def c_def nanos_def)
    then have "(os_clock s i + READY_TIMEOUT) div nanos 1 \<le> (nanos 130 + READY_TIMEOUT) div nanos 1"
      by (intro div_le_mono add_right_mono)
    then show "(os_clock s i + READY_TIMEOUT) div nanos 1 \<le> 2 ^ 63 - 1"
      by (rule le_trans) (simp add: nanos_def READY_TIMEOUT_def)
  qed
  moreover have "mono (os_clock s)"
    by (intro monoI) (simp add: s_def quiet_sys_def c_def nanos_def div_le_mono)
  moreover have "\<forall>j < 41. os_clock s (os_ticks s + 3 * j + 2) +
      1000000 * ((os_clock s (os_ticks s + 3 * j + 1) + READY_PROBE_TIMEOUT -
        os_clock s (os_ticks s + 3 * j + 2)) div 1000000) \<le> os_clock s (os_ticks s + 3 * j + 3)"
    by (simp add: s_def quiet_sys_def c_def nanos_def READY_PROBE_TIMEOUT_def) presburger
  moreover have "sent s = []" by (simp add: s_def quiet_sys_def sent_def map_filter_def)
  ultimately have "\<exists>t k. wait_ready s = (Inl (Err Timeout), t) \<and> k \<le> 41 \<and>
      sent t = replicate k (packet CSI_FCC_LOCK_QUERY_REQ (pack_u32 0) Async)"
    using wait_ready_gives_up [of s] by auto
  then show ?thesis unfolding s_def c_def [abs_def] .
qed

text \<open>C26: A late modem is heard: on a cold boot the first probes stay unanswered; as long as each of them
  has timed out before two minutes have passed, \<open>wait_ready\<close> reopens the port and probes again, and it
  returns Ok with the first probe that is answered in time.\<close>

theorem wait_ready_hears_late_modem:
  assumes "inbuf s = []" and "os_reads s = [Inr raw]"
    and "os_polls s = replicate k (PollReady 0) @ [PollReady 1]"
    and "os_writes s = replicate (Suc k) None" and "os_opens s = replicate k None"
    and "clock_ok READY_TIMEOUT s"
    and "\<forall>j \<le> k. os_clock s (os_ticks s + 3 * j + 2) <
           os_clock s (os_ticks s + 3 * j + 1) + READY_PROBE_TIMEOUT"
    and "\<forall>j < k. os_clock s (os_ticks s + 3 * j + 3) < os_clock s (os_ticks s) + READY_TIMEOUT"
    and "is_frame raw" and "parse raw = Inr r" and "msg_kind r = Response"
    and "length raw \<le> READ_BUF_LEN"
  shows "\<exists>t. wait_ready s = (Inr (), t) \<and>
    sent t = sent s @ replicate (Suc k) (packet CSI_FCC_LOCK_QUERY_REQ (pack_u32 0) Async)"
proof -
  let ?s = "s\<lparr>os_ticks := os_ticks s + 1\<rparr>" and ?d = "os_clock s (os_ticks s) + READY_TIMEOUT"
  have "boots_late k ?d raw ?s"
    using assms(1-5,7,8) by (simp add: boots_late_def Suc3_eq_add_3 add.commute add.left_commute)
  moreover have "clock_ok READY_PROBE_TIMEOUT s"
    using assms(6) by (rule clock_ok_mono)
      (simp add: READY_TIMEOUT_def READY_PROBE_TIMEOUT_def nanos_def)
  then have "clock_ok READY_PROBE_TIMEOUT ?s" by (simp add: clock_ok_def)
  ultimately obtain t where "wait_ready_loop ?d ?s = (Inr (), t)"
      "sent t = sent s @ replicate (Suc k) probe"
    using boots_late_loop assms(9-12) by fastforce
  moreover from this(1) have "wait_ready s = (Inr (), t)"
    using assms(6)
    by (simp add: wait_ready_def instant_now_def instant_add_def clock_ok_def seq_def)
  ultimately show ?thesis by blast
qed

theorem wait_ready_hears_late_modem_witness:
  "\<exists>t. wait_ready (quiet_sys\<lparr>os_clock := \<lambda>k. nanos (min k 130), os_writes := replicate 6 None,
      os_opens := replicate 5 None, os_polls := replicate 5 (PollReady 0) @ [PollReady 1],
      os_reads := [Inr (packet CSI_FCC_LOCK_QUERY_REQ (asn_int 0) Sync)]\<rparr>) = (Inr (), t) \<and>
     length (sent t) = 6"
proof -
  let ?raw = "packet CSI_FCC_LOCK_QUERY_REQ (asn_int 0) Sync"
  define s where "s = quiet_sys\<lparr>os_clock := \<lambda>k. nanos (min k 130), os_writes := replicate 6 None,
      os_opens := replicate 5 None, os_polls := replicate 5 (PollReady 0) @ [PollReady 1],
      os_reads := [Inr ?raw]\<rparr>"
  obtain r where raw: "is_frame ?raw" "parse ?raw = Inr r" "msg_kind r = Response"
    using zero_response [of CSI_FCC_LOCK_QUERY_REQ 0] by (auto simp: command_defs)
  have "clock_ok READY_TIMEOUT s"
    by (simp add: clock_ok_def s_def quiet_sys_def nanos_def READY_TIMEOUT_def min.coboundedI2)
  then have "\<exists>t. wait_ready s = (Inr (), t) \<and>
      sent t = sent s @ replicate (Suc 5) (packet CSI_FCC_LOCK_QUERY_REQ (pack_u32 0) Async)"
    using raw
    by (intro wait_ready_hears_late_modem [where raw = ?raw and r = r])
      (auto simp: s_def quiet_sys_def nanos_def READY_PROBE_TIMEOUT_def READY_TIMEOUT_def
        READ_BUF_LEN_def length_packet echo_len_def)
  moreover have "sent s = []" by (simp add: s_def quiet_sys_def sent_def map_filter_def)
  ultimately show ?thesis by (auto simp: s_def)
qed

end
