(* ===== verification/Vectors.thy ===== *)
theory Vectors
  imports Apn Framing
begin

text \<open>
  The repository's own tests, run on the model: the byte vectors of \<open>src/tests/vectors.rs\<close>, which
  come from the reference implementation, and the unit tests of \<open>codec.rs\<close> and \<open>transport.rs\<close>.  A
  test is a truth value that is false where the test would panic.  The tests of the transport need a
  clock and the answers of a pipe, which are the arguments of \<open>rpc_from_pipe\<close>.
\<close>

section \<open>Hexadecimal vectors\<close>

definition hex_value :: "char \<Rightarrow> nat option" where
  \<comment> \<open>\<open>char::to_digit(16)\<close>\<close>
  "hex_value c =
     (let n = of_char c :: nat in
      if 48 \<le> n \<and> n \<le> 57 then Some (n - 48)
      else if 97 \<le> n \<and> n \<le> 102 then Some (n - 87)
      else if 65 \<le> n \<and> n \<le> 70 then Some (n - 55)
      else None)"

definition hex_pair :: "char \<Rightarrow> char \<Rightarrow> byte option" where
  \<comment> \<open>\<open>u8::from_str_radix\<close> on two characters; a leading plus sign is accepted.\<close>
  "hex_pair a b =
     (if a = CHR ''+'' then map_option of_nat (hex_value b)
      else Option.bind (hex_value a) (\<lambda>x. map_option (\<lambda>y. of_nat (16 * x + y)) (hex_value b)))"

fun unhex_pairs :: "string \<Rightarrow> byte list option" where
  "unhex_pairs (a # b # cs) =
     Option.bind (hex_pair a b) (\<lambda>x. map_option (\<lambda>bs. x # bs) (unhex_pairs cs))"
| "unhex_pairs [] = Some []"
| "unhex_pairs [a] = None"

definition unhex :: "string \<Rightarrow> byte list option" where
  \<comment> \<open>\<open>None\<close> is a failed assertion or \<open>unwrap\<close>.\<close>
  "unhex hex = (if even (length hex) then unhex_pairs hex else None)"

lemma hex_pairs:
  "hex_pair CHR ''0'' CHR ''0'' = Some 0" "hex_pair CHR ''0'' CHR ''1'' = Some 1"
  "hex_pair CHR ''0'' CHR ''2'' = Some 2" "hex_pair CHR ''0'' CHR ''3'' = Some 3"
  "hex_pair CHR ''0'' CHR ''4'' = Some 4" "hex_pair CHR ''0'' CHR ''6'' = Some 6"
  "hex_pair CHR ''1'' CHR ''4'' = Some 20" "hex_pair CHR ''1'' CHR ''8'' = Some 24"
  "hex_pair CHR ''2'' CHR ''e'' = Some 46" "hex_pair CHR ''2'' CHR ''f'' = Some 47"
  "hex_pair CHR ''3'' CHR ''0'' = Some 48" "hex_pair CHR ''4'' CHR ''1'' = Some 65"
  "hex_pair CHR ''4'' CHR ''2'' = Some 66" "hex_pair CHR ''4'' CHR ''3'' = Some 67"
  "hex_pair CHR ''4'' CHR ''5'' = Some 69" "hex_pair CHR ''4'' CHR ''9'' = Some 73"
  "hex_pair CHR ''4'' CHR ''d'' = Some 77" "hex_pair CHR ''4'' CHR ''f'' = Some 79"
  "hex_pair CHR ''5'' CHR ''0'' = Some 80" "hex_pair CHR ''5'' CHR ''3'' = Some 83"
  "hex_pair CHR ''5'' CHR ''5'' = Some 85" "hex_pair CHR ''6'' CHR ''1'' = Some 97"
  "hex_pair CHR ''6'' CHR ''3'' = Some 99" "hex_pair CHR ''6'' CHR ''5'' = Some 101"
  "hex_pair CHR ''6'' CHR ''7'' = Some 103" "hex_pair CHR ''6'' CHR ''8'' = Some 104"
  "hex_pair CHR ''6'' CHR ''9'' = Some 105" "hex_pair CHR ''6'' CHR ''c'' = Some 108"
  "hex_pair CHR ''6'' CHR ''e'' = Some 110" "hex_pair CHR ''6'' CHR ''f'' = Some 111"
  "hex_pair CHR ''7'' CHR ''2'' = Some 114" "hex_pair CHR ''7'' CHR ''3'' = Some 115"
  "hex_pair CHR ''7'' CHR ''4'' = Some 116" "hex_pair CHR ''8'' CHR ''1'' = Some 129"
  "hex_pair CHR ''8'' CHR ''2'' = Some 130" "hex_pair CHR ''f'' CHR ''a'' = Some 250"
  "hex_pair CHR ''f'' CHR ''c'' = Some 252" "hex_pair CHR ''f'' CHR ''f'' = Some 255"
  by (simp_all add: hex_pair_def hex_value_def)

lemma unhex_pairs_even: "unhex_pairs s = Some bs \<Longrightarrow> even (length s)"
  by (induction s arbitrary: bs rule: unhex_pairs.induct) (auto simp: bind_eq_Some_conv)

lemma unhexI: "unhex_pairs s = Some bs \<Longrightarrow> unhex s = Some bs"
  using unhex_pairs_even by (simp add: unhex_def)

lemmas hex_eval = unhex_pairs.simps hex_pairs Option.bind.simps option.map

definition telstra_hex :: "string list" where
  \<comment> \<open>The arguments of \<open>concat!\<close>.\<close>
  "telstra_hex =
    [
     ''0201005582010102040000010402040000000300000000000000000000000000000000000000'',
     ''0000000000000000000000000000000000000000000000000000000000000000000000000000'',
     ''0000000000000000000000000000000000000000000000000000000000000000000000000000'',
     ''0000000000000000000000000000000000000000000000000000000000000000000000000000'',
     ''0000000000000000000000000000000000000000000000000000000000000000000000000000'',
     ''0000000000000000000000000000000000000000000000000000000000000000000000000000'',
     ''0000000000000000000000000000000000000000000000000000000000000000000000000000'',
     ''0000000000000000000000000002040000000055410204000000420204000000010000000000'',
     ''0000000000000000000000000000000000000000000000000000000000000000000000000000'',
     ''0000000000000000000000000000000000000000000000554102040000004102040000000000'',
     ''0000000000000000000000000000000000000000000000000000000000000000000000000000'',
     ''00000000000000000000000000000000000000000000000000005581fa0204000000fa020400'',
     ''0000000000000000000000000000000000000000000000000000000000000000000000000000'',
     ''0000000000000000000000000000000000000000000000000000000000000000000000000000'',
     ''0000000000000000000000000000000000000000000000000000000000000000000000000000'',
     ''0000000000000000000000000000000000000000000000000000000000000000000000000000'',
     ''0000000000000000000000000000000000000000000000000000000000000000000000000000'',
     ''0000000000000000000000000000000000000000000000000000000000000000000000000000'',
     ''000000000000000000000000000000000000000000000000000201005581fa0204000000fc02'',
     ''0400000002000000000000000000000000000000000000000000000000000000000000000000'',
     ''0000000000000000000000000000000000000000000000000000000000000000000000000000'',
     ''0000000000000000000000000000000000000000000000000000000000000000000000000000'',
     ''0000000000000000000000000000000000000000000000000000000000000000000000000000'',
     ''0000000000000000000000000000000000000000000000000000000000000000000000000000'',
     ''0000000000000000000000000000000000000000000000000000000000000000000000000000'',
     ''0000000000000000000000000000000000000000000000000000000000020200000204000000'',
     ''0002040000000002040000000002040000000002040000000002040000000002040000000002'',
     ''0400000000020400000000020400000000020400000000020400000000020400000000020400'',
     ''0000000204000000000204000000000204000000000204000000000204000000000204000000'',
     ''0002040000000055140204000000140204000000000000000000000000000000000000000000'',
     ''0000000204000000005565020400000068020400000003000000000000000000000000000000'',
     ''0000000000000000000000000000000000000000000000000000000000000000000000000000'',
     ''0000000000000000000000000000000000000000000000000000000000000000000000000000'',
     ''0000000000000000000000000055820101020400000104020400000003000000000000000000'',
     ''0000000000000000000000000000000000000000000000000000000000000000000000000000'',
     ''0000000000000000000000000000000000000000000000000000000000000000000000000000'',
     ''0000000000000000000000000000000000000000000000000000000000000000000000000000'',
     ''0000000000000000000000000000000000000000000000000000000000000000000000000000'',
     ''0000000000000000000000000000000000000000000000000000000000000000000000000000'',
     ''0000000000000000000000000000000000000000000000000000000000000000000000000000'',
     ''0000000000000000000000000000000000000000000000020400000000554102040000004202'',
     ''0400000001000000000000000000000000000000000000000000000000000000000000000000'',
     ''0000000000000000000000000000000000000000000000000000000000000000005541020400'',
     ''0000410204000000000000000000000000000000000000000000000000000000000000000000'',
     ''0000000000000000000000000000000000000000000000000000000000000000000000005581'',
     ''fa0204000000fa02040000000000000000000000000000000000000000000000000000000000'',
     ''0000000000000000000000000000000000000000000000000000000000000000000000000000'',
     ''0000000000000000000000000000000000000000000000000000000000000000000000000000'',
     ''0000000000000000000000000000000000000000000000000000000000000000000000000000'',
     ''0000000000000000000000000000000000000000000000000000000000000000000000000000'',
     ''0000000000000000000000000000000000000000000000000000000000000000000000000000'',
     ''0000000000000000000000000000000000000000000000000000000000000000000000020100'',
     ''5581fa0204000000fc0204000000020000000000000000000000000000000000000000000000'',
     ''0000000000000000000000000000000000000000000000000000000000000000000000000000'',
     ''0000000000000000000000000000000000000000000000000000000000000000000000000000'',
     ''0000000000000000000000000000000000000000000000000000000000000000000000000000'',
     ''0000000000000000000000000000000000000000000000000000000000000000000000000000'',
     ''0000000000000000000000000000000000000000000000000000000000000000000000000000'',
     ''0000000000000000000000000000000000000000000000000000000000000000000000000000'',
     ''0002020000020400000000020400000000020400000000020400000000020400000000020400'',
     ''0000000204000000000204000000000204000000000204000000000204000000000204000000'',
     ''0002040000000002040000000002040000000002040000000002040000000002040000000002'',
     ''0400000000020400000000020400000000551402040000001402040000000000000000000000'',
     ''0000000000000000000000000002040000000055650204000000680204000000030000000000'',
     ''0000000000000000000000000000000000000000000000000000000000000000000000000000'',
     ''0000000000000000000000000000000000000000000000000000000000000000000000000000'',
     ''0000000000000000000000000000000000000000000000558201010204000001040204000000'',
     ''0300000000000000000000000000000000000000000000000000000000000000000000000000'',
     ''0000000000000000000000000000000000000000000000000000000000000000000000000000'',
     ''0000000000000000000000000000000000000000000000000000000000000000000000000000'',
     ''0000000000000000000000000000000000000000000000000000000000000000000000000000'',
     ''0000000000000000000000000000000000000000000000000000000000000000000000000000'',
     ''0000000000000000000000000000000000000000000000000000000000000000000000000000'',
     ''0000000000000000000000000000000000000000000000000000000000000000000204000000'',
     ''0055410204000000420204000000010000000000000000000000000000000000000000000000'',
     ''0000000000000000000000000000000000000000000000000000000000000000000000000000'',
     ''0000000000554102040000004102040000000000000000000000000000000000000000000000'',
     ''0000000000000000000000000000000000000000000000000000000000000000000000000000'',
     ''00000000000000005581fa0204000000fa020400000000000000000000000000000000000000'',
     ''0000000000000000000000000000000000000000000000000000000000000000000000000000'',
     ''0000000000000000000000000000000000000000000000000000000000000000000000000000'',
     ''0000000000000000000000000000000000000000000000000000000000000000000000000000'',
     ''0000000000000000000000000000000000000000000000000000000000000000000000000000'',
     ''0000000000000000000000000000000000000000000000000000000000000000000000000000'',
     ''0000000000000000000000000000000000000000000000000000000000000000000000000000'',
     ''000000000000000201005581fa0204000000fc02040000000200000000000000000000000000'',
     ''0000000000000000000000000000000000000000000000000000000000000000000000000000'',
     ''0000000000000000000000000000000000000000000000000000000000000000000000000000'',
     ''0000000000000000000000000000000000000000000000000000000000000000000000000000'',
     ''0000000000000000000000000000000000000000000000000000000000000000000000000000'',
     ''0000000000000000000000000000000000000000000000000000000000000000000000000000'',
     ''0000000000000000000000000000000000000000000000000000000000000000000000000000'',
     ''0000000000000000000000020200000204000000000204000000000204000000000204000000'',
     ''0002040000000102040000000002040000000002040000000002040000000002040000000002'',
     ''0400000000020400000000020400000001020400000000020400000000020400000404020400'',
     ''0000010204000000000204000000010204000000000204000000005514020400000014020400'',
     ''0000000000000000000000000000000000000000000000020400000003556502040000006802'',
     ''040000000374656c737472612e696e7465726e65740000000000000000000000000000000000'',
     ''0000000000000000000000000000000000000000000000000000000000000000000000000000'',
     ''0000000000000000000000000000000000000000000000000000000000000000005582010102'',
     ''0400000104020400000003000000000000000000000000000000000000000000000000000000'',
     ''0000000000000000000000000000000000000000000000000000000000000000000000000000'',
     ''0000000000000000000000000000000000000000000000000000000000000000000000000000'',
     ''0000000000000000000000000000000000000000000000000000000000000000000000000000'',
     ''0000000000000000000000000000000000000000000000000000000000000000000000000000'',
     ''0000000000000000000000000000000000000000000000000000000000000000000000000000'',
     ''0000000000000000000000000000000000000000000000000000000000000000000000000000'',
     ''0000000000020400000000554102040000004202040000000100000000000000000000000000'',
     ''0000000000000000000000000000000000000000000000000000000000000000000000000000'',
     ''0000000000000000000000000000005541020400000041020400000000000000000000000000'',
     ''0000000000000000000000000000000000000000000000000000000000000000000000000000'',
     ''0000000000000000000000000000000000005581fa0204000000fa0204000000000000000000'',
     ''0000000000000000000000000000000000000000000000000000000000000000000000000000'',
     ''0000000000000000000000000000000000000000000000000000000000000000000000000000'',
     ''0000000000000000000000000000000000000000000000000000000000000000000000000000'',
     ''0000000000000000000000000000000000000000000000000000000000000000000000000000'',
     ''0000000000000000000000000000000000000000000000000000000000000000000000000000'',
     ''0000000000000000000000000000000000000000000000000000000000000000000000000000'',
     ''00000000000000000000000000000000000201005581fa0204000000fc020400000002000000'',
     ''0000000000000000000000000000000000000000000000000000000000000000000000000000'',
     ''0000000000000000000000000000000000000000000000000000000000000000000000000000'',
     ''0000000000000000000000000000000000000000000000000000000000000000000000000000'',
     ''0000000000000000000000000000000000000000000000000000000000000000000000000000'',
     ''0000000000000000000000000000000000000000000000000000000000000000000000000000'',
     ''0000000000000000000000000000000000000000000000000000000000000000000000000000'',
     ''0000000000000000000000000000000000000000000202000002040000000002040000000002'',
     ''0400000000020400000000020400000001020400000000020400000000020400000000020400'',
     ''0000000204000000000204000000000204000000000204000000010204000000000204000000'',
     ''0002040000040402040000000102040000000002040000000102040000000002040000000055'',
     ''1402040000001402040000000000000000000000000000000000000000000000000204000000'',
     ''03556502040000006702040000000274656c737472612e696e7465726e657400000000000000'',
     ''0000000000000000000000000000000000000000000000000000000000000000000000000000'',
     ''0000000000000000000000000000000000000000000000000000000000000000000000000000'',
     ''00000000020103020400000000'']"

section \<open>Run lengths\<close>

text \<open>The vector is almost all zeros: the two sides are compared as lists of segments.\<close>

datatype segment = Lit "byte list" | Zeros nat

fun segment_bytes :: "segment \<Rightarrow> byte list" where
  "segment_bytes (Lit bs) = bs"
| "segment_bytes (Zeros n) = replicate n 0"

definition segments_bytes :: "segment list \<Rightarrow> byte list" where
  "segments_bytes segs = concat (map segment_bytes segs)"

fun push_run :: "nat \<Rightarrow> byte \<Rightarrow> (nat \<times> byte) list \<Rightarrow> (nat \<times> byte) list" where
  "push_run n b [] = [(n, b)]"
| "push_run n b ((m, c) # rs) = (if b = c then (n + m, c) # rs else (n, b) # (m, c) # rs)"

fun lit_count :: "segment \<Rightarrow> nat" where
  "lit_count (Lit bs) = Suc (length bs)"
| "lit_count (Zeros _) = 1"

function runs :: "segment list \<Rightarrow> (nat \<times> byte) list" where
  "runs [] = []"
| "runs (Lit [] # segs) = runs segs"
| "runs (Lit (b # bs) # segs) = push_run 1 b (runs (Lit bs # segs))"
| "runs (Zeros n # segs) = push_run n 0 (runs segs)"
  by pat_completeness auto
termination
  by (relation "measure (\<lambda>segs. sum_list (map lit_count segs))") simp_all

definition runs_bytes :: "(nat \<times> byte) list \<Rightarrow> byte list" where
  "runs_bytes rs = concat (map (\<lambda>(n, b). replicate n b) rs)"

lemma runs_bytes_push: "runs_bytes (push_run n b rs) = replicate n b @ runs_bytes rs"
  by (cases "(n, b, rs)" rule: push_run.cases) (simp_all add: runs_bytes_def replicate_add)

lemma runs_bytes_runs: "runs_bytes (runs segs) = segments_bytes segs"
  by (induction segs rule: runs.induct)
    (simp_all add: runs_bytes_push segments_bytes_def, simp add: runs_bytes_def)

lemma segments_eqI:
  "list_all2 (\<lambda>xs ys. runs xs = runs ys) xss yss \<Longrightarrow>
   segments_bytes (concat xss) = segments_bytes (concat yss)"
proof (induction rule: list_all2_induct)
  case (Cons xs xss ys yss)
  then have "segments_bytes xs = segments_bytes ys" by (metis runs_bytes_runs)
  with Cons show ?case by (simp add: segments_bytes_def)
qed simp

lemma unhex_pairs_append:
  "unhex_pairs xs = Some bs \<Longrightarrow> unhex_pairs (xs @ ys) = map_option ((@) bs) (unhex_pairs ys)"
  by (induction xs arbitrary: bs rule: unhex_pairs.induct; cases "unhex_pairs ys")
    (auto simp: bind_eq_Some_conv)

lemma unhex_concat:
  "list_all2 (\<lambda>line seg. unhex_pairs line = Some (segment_bytes seg)) lines segs \<Longrightarrow>
   unhex_pairs (concat lines) = Some (segments_bytes segs)"
  by (induction rule: list_all2_induct) (auto simp: segments_bytes_def unhex_pairs_append)

definition vector_segments :: "segment list list" where
  "vector_segments =
    [
     [Lit [2, 1, 0, 85, 130, 1, 1, 2, 4, 0, 0, 1, 4, 2, 4, 0, 0, 0, 3, 0, 0, 0, 0, 0, 0, 0, 0, 0, 0, 0, 0, 0, 0, 0, 0, 0, 0, 0],
      Zeros 38, Zeros 38, Zeros 38, Zeros 38, Zeros 38, Zeros 38,
      Lit [0, 0, 0, 0, 0, 0, 0, 0, 0, 0, 0, 0, 0, 2, 4, 0, 0, 0, 0, 85, 65, 2, 4, 0, 0, 0, 66, 2, 4, 0, 0, 0, 1, 0, 0, 0, 0, 0],
      Zeros 38,
      Lit [0, 0, 0, 0, 0, 0, 0, 0, 0, 0, 0, 0, 0, 0, 0, 0, 0, 0, 0, 0, 0, 0, 0, 85, 65, 2, 4, 0, 0, 0, 65, 2, 4, 0, 0, 0, 0, 0],
      Zeros 38,
      Lit [0, 0, 0, 0, 0, 0, 0, 0, 0, 0, 0, 0, 0, 0, 0, 0, 0, 0, 0, 0, 0, 0, 0, 0, 0, 0, 85, 129, 250, 2, 4, 0, 0, 0, 250, 2, 4, 0]],
     [Zeros 38, Zeros 38, Zeros 38, Zeros 38, Zeros 38, Zeros 38,
      Lit [0, 0, 0, 0, 0, 0, 0, 0, 0, 0, 0, 0, 0, 0, 0, 0, 0, 0, 0, 0, 0, 0, 0, 0, 0, 2, 1, 0, 85, 129, 250, 2, 4, 0, 0, 0, 252, 2]],
     [Lit [4, 0, 0, 0, 2, 0, 0, 0, 0, 0, 0, 0, 0, 0, 0, 0, 0, 0, 0, 0, 0, 0, 0, 0, 0, 0, 0, 0, 0, 0, 0, 0, 0, 0, 0, 0, 0, 0],
      Zeros 38, Zeros 38, Zeros 38, Zeros 38, Zeros 38,
      Lit [0, 0, 0, 0, 0, 0, 0, 0, 0, 0, 0, 0, 0, 0, 0, 0, 0, 0, 0, 0, 0, 0, 0, 0, 0, 0, 0, 0, 0, 2, 2, 0, 0, 2, 4, 0, 0, 0],
      Lit [0, 2, 4, 0, 0, 0, 0, 2, 4, 0, 0, 0, 0, 2, 4, 0, 0, 0, 0, 2, 4, 0, 0, 0, 0, 2, 4, 0, 0, 0, 0, 2, 4, 0, 0, 0, 0, 2]],
     [Lit [4, 0, 0, 0, 0, 2, 4, 0, 0, 0, 0, 2, 4, 0, 0, 0, 0, 2, 4, 0, 0, 0, 0, 2, 4, 0, 0, 0, 0, 2, 4, 0, 0, 0, 0, 2, 4, 0],
      Lit [0, 0, 0, 2, 4, 0, 0, 0, 0, 2, 4, 0, 0, 0, 0, 2, 4, 0, 0, 0, 0, 2, 4, 0, 0, 0, 0, 2, 4, 0, 0, 0, 0, 2, 4, 0, 0, 0]],
     [Lit [0, 2, 4, 0, 0, 0, 0, 85, 20, 2, 4, 0, 0, 0, 20, 2, 4, 0, 0, 0, 0, 0, 0, 0, 0, 0, 0, 0, 0, 0, 0, 0, 0, 0, 0, 0, 0, 0],
      Lit [0, 0, 0, 2, 4, 0, 0, 0, 0, 85, 101, 2, 4, 0, 0, 0, 104, 2, 4, 0, 0, 0, 3, 0, 0, 0, 0, 0, 0, 0, 0, 0, 0, 0, 0, 0, 0, 0],
      Zeros 38, Zeros 38,
      Lit [0, 0, 0, 0, 0, 0, 0, 0, 0, 0, 0, 0, 0, 85, 130, 1, 1, 2, 4, 0, 0, 1, 4, 2, 4, 0, 0, 0, 3, 0, 0, 0, 0, 0, 0, 0, 0, 0],
      Zeros 38, Zeros 38, Zeros 38, Zeros 38, Zeros 38, Zeros 38,
      Lit [0, 0, 0, 0, 0, 0, 0, 0, 0, 0, 0, 0, 0, 0, 0, 0, 0, 0, 0, 0, 0, 0, 0, 2, 4, 0, 0, 0, 0, 85, 65, 2, 4, 0, 0, 0, 66, 2]],
     [Lit [4, 0, 0, 0, 1, 0, 0, 0, 0, 0, 0, 0, 0, 0, 0, 0, 0, 0, 0, 0, 0, 0, 0, 0, 0, 0, 0, 0, 0, 0, 0, 0, 0, 0, 0, 0, 0, 0],
      Lit [0, 0, 0, 0, 0, 0, 0, 0, 0, 0, 0, 0, 0, 0, 0, 0, 0, 0, 0, 0, 0, 0, 0, 0, 0, 0, 0, 0, 0, 0, 0, 0, 0, 85, 65, 2, 4, 0],
      Lit [0, 0, 65, 2, 4, 0, 0, 0, 0, 0, 0, 0, 0, 0, 0, 0, 0, 0, 0, 0, 0, 0, 0, 0, 0, 0, 0, 0, 0, 0, 0, 0, 0, 0, 0, 0, 0, 0],
      Lit [0, 0, 0, 0, 0, 0, 0, 0, 0, 0, 0, 0, 0, 0, 0, 0, 0, 0, 0, 0, 0, 0, 0, 0, 0, 0, 0, 0, 0, 0, 0, 0, 0, 0, 0, 0, 85, 129]],
     [Lit [250, 2, 4, 0, 0, 0, 250, 2, 4, 0, 0, 0, 0, 0, 0, 0, 0, 0, 0, 0, 0, 0, 0, 0, 0, 0, 0, 0, 0, 0, 0, 0, 0, 0, 0, 0, 0, 0],
      Zeros 38, Zeros 38, Zeros 38, Zeros 38, Zeros 38,
      Lit [0, 0, 0, 0, 0, 0, 0, 0, 0, 0, 0, 0, 0, 0, 0, 0, 0, 0, 0, 0, 0, 0, 0, 0, 0, 0, 0, 0, 0, 0, 0, 0, 0, 0, 0, 2, 1, 0],
      Lit [85, 129, 250, 2, 4, 0, 0, 0, 252, 2, 4, 0, 0, 0, 2, 0, 0, 0, 0, 0, 0, 0, 0, 0, 0, 0, 0, 0, 0, 0, 0, 0, 0, 0, 0, 0, 0, 0],
      Zeros 38, Zeros 38, Zeros 38, Zeros 38, Zeros 38, Zeros 38,
      Lit [0, 2, 2, 0, 0, 2, 4, 0, 0, 0, 0, 2, 4, 0, 0, 0, 0, 2, 4, 0, 0, 0, 0, 2, 4, 0, 0, 0, 0, 2, 4, 0, 0, 0, 0, 2, 4, 0]],
     [Lit [0, 0, 0, 2, 4, 0, 0, 0, 0, 2, 4, 0, 0, 0, 0, 2, 4, 0, 0, 0, 0, 2, 4, 0, 0, 0, 0, 2, 4, 0, 0, 0, 0, 2, 4, 0, 0, 0],
      Lit [0, 2, 4, 0, 0, 0, 0, 2, 4, 0, 0, 0, 0, 2, 4, 0, 0, 0, 0, 2, 4, 0, 0, 0, 0, 2, 4, 0, 0, 0, 0, 2, 4, 0, 0, 0, 0, 2]],
     [Lit [4, 0, 0, 0, 0, 2, 4, 0, 0, 0, 0, 2, 4, 0, 0, 0, 0, 85, 20, 2, 4, 0, 0, 0, 20, 2, 4, 0, 0, 0, 0, 0, 0, 0, 0, 0, 0, 0],
      Lit [0, 0, 0, 0, 0, 0, 0, 0, 0, 0, 0, 0, 0, 2, 4, 0, 0, 0, 0, 85, 101, 2, 4, 0, 0, 0, 104, 2, 4, 0, 0, 0, 3, 0, 0, 0, 0, 0],
      Zeros 38, Zeros 38,
      Lit [0, 0, 0, 0, 0, 0, 0, 0, 0, 0, 0, 0, 0, 0, 0, 0, 0, 0, 0, 0, 0, 0, 0, 85, 130, 1, 1, 2, 4, 0, 0, 1, 4, 2, 4, 0, 0, 0]],
     [Lit [3, 0, 0, 0, 0, 0, 0, 0, 0, 0, 0, 0, 0, 0, 0, 0, 0, 0, 0, 0, 0, 0, 0, 0, 0, 0, 0, 0, 0, 0, 0, 0, 0, 0, 0, 0, 0, 0],
      Zeros 38, Zeros 38, Zeros 38, Zeros 38, Zeros 38,
      Lit [0, 0, 0, 0, 0, 0, 0, 0, 0, 0, 0, 0, 0, 0, 0, 0, 0, 0, 0, 0, 0, 0, 0, 0, 0, 0, 0, 0, 0, 0, 0, 0, 0, 2, 4, 0, 0, 0]],
     [Lit [0, 85, 65, 2, 4, 0, 0, 0, 66, 2, 4, 0, 0, 0, 1, 0, 0, 0, 0, 0, 0, 0, 0, 0, 0, 0, 0, 0, 0, 0, 0, 0, 0, 0, 0, 0, 0, 0],
      Zeros 38,
      Lit [0, 0, 0, 0, 0, 85, 65, 2, 4, 0, 0, 0, 65, 2, 4, 0, 0, 0, 0, 0, 0, 0, 0, 0, 0, 0, 0, 0, 0, 0, 0, 0, 0, 0, 0, 0, 0, 0],
      Zeros 38,
      Lit [0, 0, 0, 0, 0, 0, 0, 0, 85, 129, 250, 2, 4, 0, 0, 0, 250, 2, 4, 0, 0, 0, 0, 0, 0, 0, 0, 0, 0, 0, 0, 0, 0, 0, 0, 0, 0, 0],
      Zeros 38, Zeros 38, Zeros 38, Zeros 38, Zeros 38, Zeros 38,
      Lit [0, 0, 0, 0, 0, 0, 0, 2, 1, 0, 85, 129, 250, 2, 4, 0, 0, 0, 252, 2, 4, 0, 0, 0, 2, 0, 0, 0, 0, 0, 0, 0, 0, 0, 0, 0, 0, 0],
      Zeros 38, Zeros 38, Zeros 38, Zeros 38, Zeros 38, Zeros 38,
      Lit [0, 0, 0, 0, 0, 0, 0, 0, 0, 0, 0, 2, 2, 0, 0, 2, 4, 0, 0, 0, 0, 2, 4, 0, 0, 0, 0, 2, 4, 0, 0, 0, 0, 2, 4, 0, 0, 0],
      Lit [0, 2, 4, 0, 0, 0, 1, 2, 4, 0, 0, 0, 0, 2, 4, 0, 0, 0, 0, 2, 4, 0, 0, 0, 0, 2, 4, 0, 0, 0, 0, 2, 4, 0, 0, 0, 0, 2]],
     [Lit [4, 0, 0, 0, 0, 2, 4, 0, 0, 0, 0, 2, 4, 0, 0, 0, 1, 2, 4, 0, 0, 0, 0, 2, 4, 0, 0, 0, 0, 2, 4, 0, 0, 4, 4, 2, 4, 0],
      Lit [0, 0, 1, 2, 4, 0, 0, 0, 0, 2, 4, 0, 0, 0, 1, 2, 4, 0, 0, 0, 0, 2, 4, 0, 0, 0, 0, 85, 20, 2, 4, 0, 0, 0, 20, 2, 4, 0],
      Lit [0, 0, 0, 0, 0, 0, 0, 0, 0, 0, 0, 0, 0, 0, 0, 0, 0, 0, 0, 0, 0, 0, 0, 2, 4, 0, 0, 0, 3, 85, 101, 2, 4, 0, 0, 0, 104, 2]],
     [Lit [4, 0, 0, 0, 3, 116, 101, 108, 115, 116, 114, 97, 46, 105, 110, 116, 101, 114, 110, 101, 116, 0, 0, 0, 0, 0, 0, 0, 0, 0, 0, 0, 0, 0, 0, 0, 0, 0],
      Zeros 38,
      Lit [0, 0, 0, 0, 0, 0, 0, 0, 0, 0, 0, 0, 0, 0, 0, 0, 0, 0, 0, 0, 0, 0, 0, 0, 0, 0, 0, 0, 0, 0, 0, 0, 0, 85, 130, 1, 1, 2]],
     [Lit [4, 0, 0, 1, 4, 2, 4, 0, 0, 0, 3, 0, 0, 0, 0, 0, 0, 0, 0, 0, 0, 0, 0, 0, 0, 0, 0, 0, 0, 0, 0, 0, 0, 0, 0, 0, 0, 0],
      Zeros 38, Zeros 38, Zeros 38, Zeros 38, Zeros 38, Zeros 38,
      Lit [0, 0, 0, 0, 0, 2, 4, 0, 0, 0, 0, 85, 65, 2, 4, 0, 0, 0, 66, 2, 4, 0, 0, 0, 1, 0, 0, 0, 0, 0, 0, 0, 0, 0, 0, 0, 0, 0],
      Zeros 38,
      Lit [0, 0, 0, 0, 0, 0, 0, 0, 0, 0, 0, 0, 0, 0, 0, 85, 65, 2, 4, 0, 0, 0, 65, 2, 4, 0, 0, 0, 0, 0, 0, 0, 0, 0, 0, 0, 0, 0],
      Zeros 38,
      Lit [0, 0, 0, 0, 0, 0, 0, 0, 0, 0, 0, 0, 0, 0, 0, 0, 0, 0, 85, 129, 250, 2, 4, 0, 0, 0, 250, 2, 4, 0, 0, 0, 0, 0, 0, 0, 0, 0],
      Zeros 38, Zeros 38, Zeros 38, Zeros 38, Zeros 38, Zeros 38,
      Lit [0, 0, 0, 0, 0, 0, 0, 0, 0, 0, 0, 0, 0, 0, 0, 0, 0, 2, 1, 0, 85, 129, 250, 2, 4, 0, 0, 0, 252, 2, 4, 0, 0, 0, 2, 0, 0, 0],
      Zeros 38, Zeros 38, Zeros 38, Zeros 38, Zeros 38, Zeros 38,
      Lit [0, 0, 0, 0, 0, 0, 0, 0, 0, 0, 0, 0, 0, 0, 0, 0, 0, 0, 0, 0, 0, 2, 2, 0, 0, 2, 4, 0, 0, 0, 0, 2, 4, 0, 0, 0, 0, 2],
      Lit [4, 0, 0, 0, 0, 2, 4, 0, 0, 0, 0, 2, 4, 0, 0, 0, 1, 2, 4, 0, 0, 0, 0, 2, 4, 0, 0, 0, 0, 2, 4, 0, 0, 0, 0, 2, 4, 0]],
     [Lit [0, 0, 0, 2, 4, 0, 0, 0, 0, 2, 4, 0, 0, 0, 0, 2, 4, 0, 0, 0, 0, 2, 4, 0, 0, 0, 1, 2, 4, 0, 0, 0, 0, 2, 4, 0, 0, 0],
      Lit [0, 2, 4, 0, 0, 4, 4, 2, 4, 0, 0, 0, 1, 2, 4, 0, 0, 0, 0, 2, 4, 0, 0, 0, 1, 2, 4, 0, 0, 0, 0, 2, 4, 0, 0, 0, 0, 85],
      Lit [20, 2, 4, 0, 0, 0, 20, 2, 4, 0, 0, 0, 0, 0, 0, 0, 0, 0, 0, 0, 0, 0, 0, 0, 0, 0, 0, 0, 0, 0, 0, 0, 0, 2, 4, 0, 0, 0],
      Lit [3, 85, 101, 2, 4, 0, 0, 0, 103, 2, 4, 0, 0, 0, 2, 116, 101, 108, 115, 116, 114, 97, 46, 105, 110, 116, 101, 114, 110, 101, 116, 0, 0, 0, 0, 0, 0, 0],
      Zeros 38, Zeros 38, Lit [0, 0, 0, 0, 2, 1, 3, 2, 4, 0, 0, 0, 0]]]"

definition request_segments :: "segment list list" where
  "request_segments =
    [
     [Lit [2, 1, 0], Lit [85, 130, 1, 1, 2, 4, 0, 0, 1, 4, 2, 4, 0, 0, 0, 3], Zeros 257, Zeros 3,
      Lit [2, 4, 0, 0, 0, 0], Lit [85, 65, 2, 4, 0, 0, 0, 66, 2, 4, 0, 0, 0, 1], Zeros 65, Zeros 1,
      Lit [85, 65, 2, 4, 0, 0, 0, 65, 2, 4, 0, 0, 0, 0], Zeros 65,
      Lit [85, 129, 250, 2, 4, 0, 0, 0, 250, 2, 4, 0]],
     [Lit [0, 0, 0], Zeros 250, Lit [2, 1, 0], Lit [85, 129, 250, 2, 4, 0, 0, 0, 252, 2]],
     [Lit [4, 0, 0, 0, 2], Zeros 250, Zeros 2, Lit [2, 2, 0, 0], Lit [2, 4, 0, 0, 0, 0],
      Lit [2, 4, 0, 0, 0, 0], Lit [2, 4, 0, 0, 0, 0], Lit [2, 4, 0, 0, 0, 0],
      Lit [2, 4, 0, 0, 0, 0], Lit [2, 4, 0, 0, 0, 0], Lit [2, 4, 0, 0, 0, 0], Lit [2]],
     [Lit [4, 0, 0, 0, 0], Lit [2, 4, 0, 0, 0, 0], Lit [2, 4, 0, 0, 0, 0], Lit [2, 4, 0, 0, 0, 0],
      Lit [2, 4, 0, 0, 0, 0], Lit [2, 4, 0, 0, 0, 0], Lit [2, 4, 0, 0, 0, 0],
      Lit [2, 4, 0, 0, 0, 0], Lit [2, 4, 0, 0, 0, 0], Lit [2, 4, 0, 0, 0, 0],
      Lit [2, 4, 0, 0, 0, 0], Lit [2, 4, 0, 0, 0, 0], Lit [2, 4, 0, 0, 0]],
     [Lit [0], Lit [2, 4, 0, 0, 0, 0], Lit [85, 20, 2, 4, 0, 0, 0, 20, 2, 4, 0, 0, 0, 0], Zeros 20,
      Lit [2, 4, 0, 0, 0, 0], Lit [85, 101, 2, 4, 0, 0, 0, 104, 2, 4, 0, 0, 0, 3], Zeros 101,
      Zeros 3, Lit [85, 130, 1, 1, 2, 4, 0, 0, 1, 4, 2, 4, 0, 0, 0, 3], Zeros 257, Zeros 3,
      Lit [2, 4, 0, 0, 0, 0], Lit [85, 65, 2, 4, 0, 0, 0, 66, 2]],
     [Lit [4, 0, 0, 0, 1], Zeros 65, Zeros 1, Lit [85, 65, 2, 4, 0, 0, 0, 65, 2, 4, 0, 0, 0, 0],
      Zeros 65, Lit [85, 129]],
     [Lit [250, 2, 4, 0, 0, 0, 250, 2, 4, 0, 0, 0, 0], Zeros 250, Lit [2, 1, 0],
      Lit [85, 129, 250, 2, 4, 0, 0, 0, 252, 2, 4, 0, 0, 0, 2], Zeros 250, Zeros 2,
      Lit [2, 2, 0, 0], Lit [2, 4, 0, 0, 0, 0], Lit [2, 4, 0, 0, 0, 0], Lit [2, 4, 0, 0, 0, 0],
      Lit [2, 4, 0, 0, 0, 0], Lit [2, 4, 0, 0, 0, 0], Lit [2, 4, 0]],
     [Lit [0, 0, 0], Lit [2, 4, 0, 0, 0, 0], Lit [2, 4, 0, 0, 0, 0], Lit [2, 4, 0, 0, 0, 0],
      Lit [2, 4, 0, 0, 0, 0], Lit [2, 4, 0, 0, 0, 0], Lit [2, 4, 0, 0, 0, 0],
      Lit [2, 4, 0, 0, 0, 0], Lit [2, 4, 0, 0, 0, 0], Lit [2, 4, 0, 0, 0, 0],
      Lit [2, 4, 0, 0, 0, 0], Lit [2, 4, 0, 0, 0, 0], Lit [2, 4, 0, 0, 0, 0], Lit [2]],
     [Lit [4, 0, 0, 0, 0], Lit [2, 4, 0, 0, 0, 0], Lit [2, 4, 0, 0, 0, 0],
      Lit [85, 20, 2, 4, 0, 0, 0, 20, 2, 4, 0, 0, 0, 0], Zeros 20, Lit [2, 4, 0, 0, 0, 0],
      Lit [85, 101, 2, 4, 0, 0, 0, 104, 2, 4, 0, 0, 0, 3], Zeros 101, Zeros 3,
      Lit [85, 130, 1, 1, 2, 4, 0, 0, 1, 4, 2, 4, 0, 0, 0]],
     [Lit [3], Zeros 257, Zeros 3, Lit [2, 4, 0, 0, 0]],
     [Lit [0], Lit [85, 65, 2, 4, 0, 0, 0, 66, 2, 4, 0, 0, 0, 1], Zeros 65, Zeros 1,
      Lit [85, 65, 2, 4, 0, 0, 0, 65, 2, 4, 0, 0, 0, 0], Zeros 65,
      Lit [85, 129, 250, 2, 4, 0, 0, 0, 250, 2, 4, 0, 0, 0, 0], Zeros 250, Lit [2, 1, 0],
      Lit [85, 129, 250, 2, 4, 0, 0, 0, 252, 2, 4, 0, 0, 0, 2], Zeros 250, Zeros 2,
      Lit [2, 2, 0, 0], Lit [2, 4, 0, 0, 0, 0], Lit [2, 4, 0, 0, 0, 0], Lit [2, 4, 0, 0, 0, 0],
      Lit [2, 4, 0, 0, 0, 0], Lit [2, 4, 0, 0, 0, 1], Lit [2, 4, 0, 0, 0, 0],
      Lit [2, 4, 0, 0, 0, 0], Lit [2, 4, 0, 0, 0, 0], Lit [2, 4, 0, 0, 0, 0],
      Lit [2, 4, 0, 0, 0, 0], Lit [2]],
     [Lit [4, 0, 0, 0, 0], Lit [2, 4, 0, 0, 0, 0], Lit [2, 4, 0, 0, 0, 1], Lit [2, 4, 0, 0, 0, 0],
      Lit [2, 4, 0, 0, 0, 0], Lit [2, 4, 0, 0, 4, 4], Lit [2, 4, 0, 0, 0, 1],
      Lit [2, 4, 0, 0, 0, 0], Lit [2, 4, 0, 0, 0, 1], Lit [2, 4, 0, 0, 0, 0],
      Lit [2, 4, 0, 0, 0, 0], Lit [85, 20, 2, 4, 0, 0, 0, 20, 2, 4, 0, 0, 0, 0], Zeros 20,
      Lit [2, 4, 0, 0, 0, 3], Lit [85, 101, 2, 4, 0, 0, 0, 104, 2]],
     [Lit [4, 0, 0, 0, 3],
      Lit [116, 101, 108, 115, 116, 114, 97, 46, 105, 110, 116, 101, 114, 110, 101, 116], Zeros 85,
      Zeros 3, Lit [85, 130, 1, 1, 2]],
     [Lit [4, 0, 0, 1, 4, 2, 4, 0, 0, 0, 3], Zeros 257, Zeros 3, Lit [2, 4, 0, 0, 0, 0],
      Lit [85, 65, 2, 4, 0, 0, 0, 66, 2, 4, 0, 0, 0, 1], Zeros 65, Zeros 1,
      Lit [85, 65, 2, 4, 0, 0, 0, 65, 2, 4, 0, 0, 0, 0], Zeros 65,
      Lit [85, 129, 250, 2, 4, 0, 0, 0, 250, 2, 4, 0, 0, 0, 0], Zeros 250, Lit [2, 1, 0],
      Lit [85, 129, 250, 2, 4, 0, 0, 0, 252, 2, 4, 0, 0, 0, 2], Zeros 250, Zeros 2,
      Lit [2, 2, 0, 0], Lit [2, 4, 0, 0, 0, 0], Lit [2, 4, 0, 0, 0, 0], Lit [2, 4, 0, 0, 0, 0],
      Lit [2, 4, 0, 0, 0, 0], Lit [2, 4, 0, 0, 0, 1], Lit [2, 4, 0, 0, 0, 0],
      Lit [2, 4, 0, 0, 0, 0], Lit [2, 4, 0, 0, 0, 0], Lit [2, 4, 0]],
     [Lit [0, 0, 0], Lit [2, 4, 0, 0, 0, 0], Lit [2, 4, 0, 0, 0, 0], Lit [2, 4, 0, 0, 0, 0],
      Lit [2, 4, 0, 0, 0, 1], Lit [2, 4, 0, 0, 0, 0], Lit [2, 4, 0, 0, 0, 0],
      Lit [2, 4, 0, 0, 4, 4], Lit [2, 4, 0, 0, 0, 1], Lit [2, 4, 0, 0, 0, 0],
      Lit [2, 4, 0, 0, 0, 1], Lit [2, 4, 0, 0, 0, 0], Lit [2, 4, 0, 0, 0, 0],
      Lit [85, 20, 2, 4, 0, 0, 0, 20, 2, 4, 0, 0, 0, 0], Zeros 20, Lit [2, 4, 0, 0, 0, 3],
      Lit [85, 101, 2, 4, 0, 0, 0, 103, 2, 4, 0, 0, 0, 2],
      Lit [116, 101, 108, 115, 116, 114, 97, 46, 105, 110, 116, 101, 114, 110, 101, 116], Zeros 85,
      Zeros 2, Lit [2, 1, 3], Lit [2, 4, 0, 0, 0, 0]]]"

lemma zero_line:
  "unhex_pairs ''0000000000000000000000000000000000000000000000000000000000000000000000000000'' =
   Some (segment_bytes (Zeros 38))"
proof -
  have "replicate 38 (0 :: byte) = replicate (19 + 19) 0" by simp
  then show ?thesis by (simp add: hex_eval eval_nat_numeral)
qed

lemma telstra_lines:
  "list_all2 (\<lambda>line seg. unhex_pairs line = Some (segment_bytes seg)) telstra_hex
     (concat vector_segments)"
  unfolding telstra_hex_def vector_segments_def concat.simps append.simps
  by (intro list.rel_intros; (rule zero_line | simp only: hex_eval segment_bytes.simps))

lemma same_runs:
  "segments_bytes (concat request_segments) = segments_bytes (concat vector_segments)"
  unfolding request_segments_def vector_segments_def
  by (rule segments_eqI, intro list.rel_intros) (simp_all del: One_nat_def)

lemma length_field_eval:
  "length_field 257 = [0x82, 1, 1]" "length_field 250 = [0x81, 250]" "n < 128 \<Longrightarrow> length_field n = [of_nat n]"
  by (simp_all add: length_field_def le_digits.simps Let_def)

lemmas field_eval = int_bytes_def string_bytes_def string_tag_def tag_defs asn_int_def to_be32_def
  length_field_eval

lemma request_layout:
  "layout apn_specs (apn_args (padded_apn ''telstra.internet'')) = segments_bytes (concat request_segments)"
  by (simp add: apn_specs_def apn_args_def padded_apn_def APN_MAX_LEN_def str_bytes_def
      request_segments_def segments_bytes_def field_eval)

section \<open>The tests\<close>

definition yields :: "(codec_error, byte list) res \<Rightarrow> string \<Rightarrow> bool" where
  \<comment> \<open>\<open>assert_eq!(result.unwrap(), unhex(hex))\<close>\<close>
  "yields result hex \<longleftrightarrow>
     (case unhex hex of None \<Rightarrow> False | Some expected \<Rightarrow> result = Inr expected)"

definition vector_attach_config :: bool where
  "vector_attach_config \<longleftrightarrow> yields (attach_config ''telstra.internet'') (concat telstra_hex)"

definition vector_connect_to_datachannel :: bool where
  "vector_connect_to_datachannel \<longleftrightarrow>
     yields (connect_to_datachannel ''/sioscc/PCIE/IOSM/IPS/0'')
       ''55180204000000180204000000002f73696f7363632f504349452f494f534d2f4950532f3000''"

definition vector_net_attach :: bool where
  "vector_net_attach \<longleftrightarrow>
     yields net_attach (concat
       [''0201000204000000000204000000000204000000000204000000000202ffff0202ffff020400'',
        ''000000020400000000''])"

definition vector_get_neg_ip :: bool where
  "vector_get_neg_ip \<longleftrightarrow> yields get_neg_ip ''020100020400000000020400000000''"

definition vector_ps_connect :: bool where
  "vector_ps_connect \<longleftrightarrow> yields ps_connect ''020100020400000006020400000000020400000000''"

definition integer_encoding_roundtrips :: bool where
  "integer_encoding_roundtrips \<longleftrightarrow>
     (\<forall>value \<in> set [0, 1, 0x01020304, 0xffffffff].
        fst (take_asn_int (reader_new (asn_int value))) = Inr value)"

definition short_string_pads_to_capacity :: bool where
  "short_string_pads_to_capacity \<longleftrightarrow>
     (case pack ''s4'' [ArgBytes (str_bytes ''ab'')] of
        Inl _ \<Rightarrow> False
      | Inr out \<Rightarrow>
          out = [0x55, 0x02, 0x02, 0x04, 0, 0, 0, 4, 0x02, 0x04, 0, 0, 0, 2] @ str_bytes ''ab'' @ [0, 0] \<and>
          (case unpack ''s'' out of
             Inl _ \<Rightarrow> False
           | Inr decoded \<Rightarrow>
               Option.bind (slice_get decoded 0) as_bytes = Some (str_bytes ''ab'')))"

definition long_string_uses_variable_length :: bool where
  "long_string_uses_variable_length \<longleftrightarrow>
     (let value = replicate 200 0xAA in
      case pack ''s200'' [ArgBytes value] of
        Inl _ \<Rightarrow> False
      | Inr out \<Rightarrow>
          slice_get out 0 = Some 0x55 \<and> slice_get out 1 = Some 0x81 \<and> slice_get out 2 = Some 200 \<and>
          (case unpack ''s'' out of
             Inl _ \<Rightarrow> False
           | Inr decoded \<Rightarrow> Option.bind (slice_get decoded 0) as_bytes = Some value))"

definition rejects_overflow :: bool where
  "rejects_overflow \<longleftrightarrow>
     (case pack ''s2'' [ArgBytes (str_bytes ''abc'')] of
        Inl (Err (StringOverflow _ _)) \<Rightarrow> True
      | _ \<Rightarrow> False)"

definition rpc_from_pipe ::
    "(nat \<Rightarrow> nat) \<Rightarrow> poll_answer list \<Rightarrow> (io_error + byte list) list \<Rightarrow> sys" where
  \<comment> \<open>An \<open>Rpc\<close> over the read end of a pipe.\<close>
  "rpc_from_pipe clock polls reads =
     \<lparr>os_clock = clock, os_ticks = 0, os_polls = polls, os_reads = reads, os_writes = [],
      os_opens = [], os_calls = [], rpc_path = [], inbuf = [], attach_allowed = False\<rparr>"

definition read_times_out_on_a_quiet_port :: "(nat \<Rightarrow> nat) \<Rightarrow> bool" where
  \<comment> \<open>Nothing was written: the poll answers 0 when its time is over.\<close>
  "read_times_out_on_a_quiet_port clock \<longleftrightarrow>
     fst (read_message (Some (50 * 1000000)) (rpc_from_pipe clock [PollReady 0] [])) =
       Inl (Err Timeout)"

definition read_rejects_an_implausible_frame_length :: "(nat \<Rightarrow> nat) \<Rightarrow> bool" where
  \<comment> \<open>The four bytes of \<open>u32::MAX\<close> were written.\<close>
  "read_rejects_an_implausible_frame_length clock \<longleftrightarrow>
     (case fst (read_message (Some (50 * 1000000))
         (rpc_from_pipe clock [PollReady 1] [Inr (to_le32 0xffffffff)])) of
        Inl (Err (Protocol _)) \<Rightarrow> True
      | _ \<Rightarrow> False)"

section \<open>They pass\<close>

lemma telstra_vector: "vector_attach_config"
  using unhexI [OF unhex_concat [OF telstra_lines]] attach_config_layout [of "''telstra.internet''"]
  by (simp add: vector_attach_config_def yields_def request_layout same_runs APN_MAX_LEN_def)

lemma small_vectors:
  "vector_connect_to_datachannel" "vector_net_attach" "vector_get_neg_ip" "vector_ps_connect"
proof -
  have run: "yields (Inr bs) hex" if "unhex_pairs hex = Some bs" for bs hex
    using unhexI [OF that] by (simp add: yields_def)
  note builders = net_attach_bytes get_neg_ip_bytes ps_connect_bytes
  show "vector_net_attach" "vector_get_neg_ip" "vector_ps_connect"
    unfolding vector_net_attach_def vector_get_neg_ip_def vector_ps_connect_def builders
    by (rule run, simp add: hex_eval field_eval)+
  show "vector_connect_to_datachannel"
    unfolding vector_connect_to_datachannel_def
    by (subst connect_to_datachannel_fits, simp)
      (rule run, simp add: hex_eval field_eval str_bytes_def)
qed

lemma string_test:
  assumes "length v \<le> cap" and "cap < 256"
  shows "pack (''s'' @ dec_string cap) [ArgBytes v] = Inr (string_bytes 1 cap v)"
    and "unpack ''s'' (string_bytes 1 cap v) = Inr [ValBytes v]"
proof -
  have ok: "sendable [ByteStr cap] [ArgBytes v]" "all_readable [ByteStr cap] [ArgBytes v]"
    using assms length_string_bytes_le(1) [of cap 1 v]
    by (simp_all add: sendable_def all_readable_def fits_def readable_byte)
  from pack_render [of "[ByteStr cap]" "[ArgBytes v]"] ok(1)
  show "pack (''s'' @ dec_string cap) [ArgBytes v] = Inr (string_bytes 1 cap v)"
    by (simp add: sendable_def render_def)
  from unpack_layout [OF ok, of "[]"] show "unpack ''s'' (string_bytes 1 cap v) = Inr [ValBytes v]"
    using ok(1) by (simp add: sendable_def)
qed

lemma codec_tests:
  "integer_encoding_roundtrips" "short_string_pads_to_capacity" "long_string_uses_variable_length"
  "rejects_overflow"
proof -
  show "integer_encoding_roundtrips"
    using asn_wire.decodes by (simp add: integer_encoding_roundtrips_def reader_new_def)
  have pad: "replicate 2 x = [x, x]" for x :: byte by (simp add: numeral_2_eq_2)
  show "short_string_pads_to_capacity"
    using string_test [of "str_bytes ''ab''" 4]
    by (simp add: short_string_pads_to_capacity_def dec_string_eval slice_get_def)
      (simp add: field_eval pad)
  show "long_string_uses_variable_length"
    using string_test [of "replicate 200 0xAA" 200]
    by (simp add: long_string_uses_variable_length_def dec_string_eval slice_get_def)
      (simp add: field_eval length_field_def le_digits.simps)
  show "rejects_overflow"
    by (simp add: rejects_overflow_def pack_def pack_item_def elem_width_def pack_string_def
        is_digit_def parse_usize_def Let_def)
qed

lemma transport_tests:
  assumes "(clock 0 + 50 * 1000000) div nanos 1 \<le> 2 ^ 63 - 1"
  shows "read_times_out_on_a_quiet_port clock"
    and "clock 1 < clock 0 + 50 * 1000000 \<Longrightarrow> read_rejects_an_implausible_frame_length clock"
  using assms
  by (simp_all add: read_times_out_on_a_quiet_port_def read_rejects_an_implausible_frame_length_def
      rpc_from_pipe_def read_message_def instant_now_def instant_add_def seq_def
      read_message_loop.simps buffered_frame_def fill_buffer_def wait_readable_def poll_port_def
      read_chunk_def Let_def log_call_def READ_BUF_LEN_def MAX_MESSAGE_LEN_def)

section \<open>Properties\<close>

text \<open>C34: The tests of the repository hold of the model: the encoder produces the five byte vectors of
  the reference implementation, the 5067 bytes of the attach request among them, the four unit tests
  of the codec pass, and the two of the transport pass for every clock that stays in range and does not
  jump by 50 milliseconds between two readings.\<close>

theorem repository_tests_pass:
  assumes "(clock 0 + 50 * 1000000) div nanos 1 \<le> 2 ^ 63 - 1" and "clock 1 < clock 0 + 50 * 1000000"
  shows "vector_attach_config \<and> vector_connect_to_datachannel \<and> vector_net_attach \<and>
    vector_get_neg_ip \<and> vector_ps_connect \<and>
    integer_encoding_roundtrips \<and> short_string_pads_to_capacity \<and>
    long_string_uses_variable_length \<and> rejects_overflow \<and>
    read_times_out_on_a_quiet_port clock \<and> read_rejects_an_implausible_frame_length clock"
  using assms telstra_vector small_vectors codec_tests transport_tests [of clock] by simp

theorem repository_tests_pass_witness:
  "vector_attach_config \<and> read_times_out_on_a_quiet_port (\<lambda>k. 7 + k) \<and>
   read_rejects_an_implausible_frame_length (\<lambda>k. 7 + k)"
  using repository_tests_pass [of "\<lambda>k. 7 + k"] by (simp add: nanos_def)

end
