(* ===== verification/Spec2Isabelle.thy ===== *)
theory Spec2Isabelle
  imports Sequence Waiting Vectors
begin

text \<open>
  This library models \<open>xmmrpc\<close>, the user-space control program for the Intel XMM7360 modem: a Rust
  crate that opens the RPC control port of the \<open>iosm\<close> driver, brings the modem up over it and
  configures the network interface.  All of \<open>src/src/\<close> is modelled except the log output and the parsing
  of the command line.

  \<^bold>\<open>The program.\<close>  \<open>main.rs\<close> resolves the settings (\<open>config.rs\<close>) and runs the bring-up: the
  operations of \<open>modem.rs\<close> over one \<open>Rpc\<close> (\<open>transport.rs\<close>), the payloads of which are built and
  read by \<open>requests.rs\<close> and \<open>apn.rs\<close> with the field codec of \<open>codec.rs\<close>; the address and the name
  servers obtained go to \<open>net.rs\<close>.  \<open>call_ids.rs\<close> and \<open>unsolicited.rs\<close> are the firmware's tables
  and \<open>error.rs\<close> the errors and exit codes.

  \<^bold>\<open>Theories.\<close>
  \<^item> \<open>Prelude\<close>: results with \<open>Err\<close>, \<open>Panic\<close> and \<open>Blocked\<close>, the sequencing \<open>seq\<close> of computations over
    a state (the \<open>?\<close> operator), byte order.  \<open>Text\<close>: the standard library's numbers as text and UTF-8.
  \<^item> \<open>Wire\<close>, \<open>Decoder\<close>, \<open>Encoder\<close>, \<open>Codec\<close>: \<open>codec.rs\<close>.  \<open>reader\<close> is \<open>Reader\<close>, \<open>take_bytes\<close>
    is \<open>Reader::take\<close>, \<open>codec_value\<close> is \<open>Value\<close>.  \<open>Codec\<close> relates the two sides through a reference
    layout (\<open>render\<close>, \<open>layout\<close>), says which string lengths survive, and compares the two build
    profiles (the main model is the release build, in which arithmetic wraps).
  \<^item> \<open>Tables\<close>, \<open>CallIds\<close>, \<open>Unsolicited\<close>: \<open>call_ids.rs\<close>, \<open>unsolicited.rs\<close> and the standard
    library's searches they use, for any sorted table (locale \<open>sorted_table\<close>).
  \<^item> \<open>Requests\<close>, \<open>Apn\<close>, \<open>Errors\<close>: \<open>requests.rs\<close>, \<open>apn.rs\<close>, \<open>error.rs\<close>.
  \<^item> \<open>Transport\<close>: \<open>transport.rs\<close>.  \<open>sys\<close> joins the fields of \<open>Rpc\<close> with its environment: the clock, one
    queue of answers per kind of system call, and the log of calls made.  A call with no answer left
    is \<open>Blocked\<close>: it does not return.  \<open>Framing\<close> shows that reading refines taking frames off a byte
    stream, \<open>Exchange\<close> what parsing and \<open>execute\<close> promise on top of that.
  \<^item> \<open>Modem\<close>: \<open>modem.rs\<close>, with the SHA-256 of the \<open>sha2\<close> crate as a parameter.  \<open>ModemFacts\<close>: what
    each operation has sent and required when it returns, and that none panics (locale \<open>calm_op\<close>).
    \<open>Protocol\<close>: the language of packets of each operation, closed under sequencing (locale
    \<open>emitter\<close>).  \<open>Peer\<close>: a cooperative modem (\<open>serves\<close>), for which every operation succeeds.
    \<open>Bringup\<close>: the properties of the operations, each with the states between its requests (\<open>receives\<close>:
    messages received; \<open>retries\<close>: queries for the address that found none); \<open>Waiting\<close>: how long
    the first of them waits, given a monotonic clock and a \<open>poll\<close> that blocks as long as asked.
  \<^item> \<open>Network\<close>, \<open>Settings\<close>, \<open>Program\<close>: \<open>net.rs\<close>, \<open>config.rs\<close>, \<open>main.rs\<close>.  The state \<open>host\<close> joins
    the port, the kernel's netlink answers, the files and what is printed.  \<open>Sequence\<close>: the
    properties of a whole run.
  \<^item> \<open>Vectors\<close>: the tests of the repository (\<open>tests/vectors.rs\<close> and the unit tests of \<open>codec.rs\<close> and
    \<open>transport.rs\<close>), which hold of the model.
  \<^item> This theory: how the code tables and the constants of \<open>modem.rs\<close> fit together.

  \<^bold>\<open>Bounds.\<close>  There is no fuel.  Decoder loops end because a field consumes a byte; receiving loops
  decrease \<open>pending\<close>, the bytes the environment still holds; the probing and polling loops decrease the
  answers to writes, since each request takes one.  A loop that could run forever in the program is,
  in the model, one whose environment ends in \<open>Blocked\<close>; \<open>usize\<close> is 64 bits wide, and a buffer of more than
  \<open>isize::MAX\<close> bytes is an allocation that panics.

  \<^bold>\<open>Interfaces.\<close>  \<open>decoder\<close>, \<open>field_decoder\<close> and \<open>wire_field\<close> (a method of the cursor, one that
  consumes, one that reads back what an encoder wrote); \<open>port_op\<close>, \<open>listener\<close> and \<open>receiver\<close> (an operation on
  the port, one that only listens, one that consumes a message); \<open>receive_until\<close> (the three loops
  that wait for a message); \<open>appender\<close> (a writer that only appends); \<open>speaker\<close> and \<open>steady\<close> (parts of
  \<open>run\<close>).  Each is interpreted on the definitions that implement it.

  \<^bold>\<open>What modelling showed.\<close>  String counts of 128 or more are written big-endian and read little-endian
  (\<open>long_string_verdict\<close>); a mode confirmation that precedes the response is lost and the program waits
  forever (\<open>set_mode_misses_early_confirmation\<close>); a string field with nine length bytes panics a build with
  overflow checks (\<open>profiles_agree\<close>); a very long configured wait panics (\<open>wait_for_ip_panics\<close>);
  \<open>reopen\<close> opens the port before it closes it (\<open>reopen_resets\<close>); the timeout of a request starts anew
  with every message received while waiting (\<open>timeout_restarts_per_message\<close>), although one message
  keeps its deadline exactly (\<open>read_message_keeps_deadline\<close>).

  \<^bold>\<open>Not modelled.\<close>  Log output (which filter is installed is modelled, \<open>init_tracing\<close>); command-line parsing (the \<open>palc\<close> crate) and the
  TOML parser (a parameter); the inside of \<open>rtnetlink\<close>, \<open>tokio\<close> and \<open>sha2\<close>; interruption of system calls;
  partial writes to the port (a packet is written whole or the write fails, and is logged as sent either
  way); formats are bytes, so a \<open>BadFormat\<close> for a specifier outside ASCII names its first byte;
  the Nix files and the continuous integration.
\<close>

section \<open>The code space\<close>

fun merge_codes :: "nat list \<Rightarrow> nat list \<Rightarrow> nat list" where
  "merge_codes [] ys = ys"
| "merge_codes xs [] = xs"
| "merge_codes (x # xs) (y # ys) =
     (if x \<le> y then x # merge_codes xs (y # ys) else y # merge_codes (x # xs) ys)"

lemma mset_merge_codes: "mset (merge_codes xs ys) = mset xs + mset ys"
  by (induction xs ys rule: merge_codes.induct) simp_all

fun counts_from :: "nat \<Rightarrow> nat list \<Rightarrow> bool" where
  "counts_from n [] \<longleftrightarrow> True"
| "counts_from n (x # xs) \<longleftrightarrow> x = n \<and> counts_from (n + 1) xs"

lemma counts_from_upt: "counts_from n xs \<Longrightarrow> xs = [n..<n + length xs]"
proof (induction xs arbitrary: n)
  case (Cons x xs)
  from Cons.prems have "x = n" "counts_from (Suc n) xs" by simp_all
  moreover from this(2) have "xs = [Suc n..<Suc n + length xs]" by (rule Cons.IH)
  moreover have "[n..<n + length (x # xs)] = n # [Suc n..<Suc n + length xs]"
    by (simp add: upt_conv_Cons del: upt_Suc)
  ultimately show ?case by metis
qed simp

lemma merged_codes:
  "counts_from 1 (merge_codes (map unat (map snd CALL_IDS)) (map unat (map fst UNSOLICITED)))"
  by (simp only: CALL_IDS_def UNSOLICITED_def list.map fst_conv snd_conv unat_numeral unat_1) simp

lemma table_sizes: "length CALL_IDS = 229" "length UNSOLICITED = 227"
  by (simp_all only: CALL_IDS_def UNSOLICITED_def list.size)

lemma named_calls:
  "\<forall>(n, r) \<in> set
     [(''UtaMsSimOpenReq'', 0x001),
      (''UtaMsSmsInit'', 0x030),
      (''UtaMsCbsInit'', 0x025),
      (''UtaMsNetOpen'', 0x053),
      (''UtaMsCallCsInit'', 0x024),
      (''UtaMsCallPsInitialize'', 0x03a),
      (''UtaMsSsInit'', 0x026),
      (''UtaMsCallPsAttachApnConfigReq'', 0x1af),
      (''UtaMsNetAttachReq'', 0x05c),
      (''UtaMsCallPsGetNegIpAddrReq'', 0x049),
      (''UtaMsCallPsGetNegotiatedDnsReq'', 0x047),
      (''UtaMsCallPsConnectReq'', 0x051),
      (''UtaRPCPsConnectToDatachannelReq'', 0x07e),
      (''UtaRPCPSConnectSetupReq'', 0x07d),
      (''UtaModeSetReq'', 0x12f),
      (''UtaSysGetInfo'', 0x07c),
      (''CsiFccLockQueryReq'', 0x18e),
      (''CsiFccLockGenChallengeReq'', 0x190),
      (''CsiFccLockVerChallengeReq'', 0x192)].
     (n, r) \<in> set CALL_IDS"
  by (simp only: list.set ball_simps prod.case insert_iff CALL_IDS_def simp_thms)

section \<open>Properties\<close>

text \<open>C40: The two firmware tables share out the code space: the call ids and the indication codes are
  disjoint, every code is listed once, and together they are exactly the codes 1 to 456, so that a code
  decides whether a message is a call or an indication.  Both tables are sorted, as their lookups need.\<close>

theorem code_tables_partition:
  "distinct (map snd CALL_IDS @ map fst UNSOLICITED) \<and>
   unat ` set (map snd CALL_IDS @ map fst UNSOLICITED) = {1..456} \<and>
   sorted_wrt (<) (map (CallId \<circ> snd) CALL_IDS) \<and> sorted_wrt (<) (map fst UNSOLICITED)"
proof -
  let ?calls = "map unat (map snd CALL_IDS)" and ?inds = "map unat (map fst UNSOLICITED)"
  have len: "length (merge_codes ?calls ?inds) = 456"
    using table_sizes by (simp flip: size_mset add: mset_merge_codes del: size_mset) 
  have "merge_codes ?calls ?inds = [1..<457]"
  proof -
    have "1 + 456 = (457 :: nat)" by simp
    then show ?thesis using counts_from_upt [OF merged_codes] unfolding len by (simp only:)
  qed
  then have m: "mset (?calls @ ?inds) = mset [1..<457]"
    using mset_merge_codes [of ?calls ?inds] by (simp del: upt_rec_numeral)
  then have "distinct (?calls @ ?inds)"
    using distinct_upt by (metis mset_eq_imp_distinct_iff)
  then have "distinct (map unat (map snd CALL_IDS @ map fst UNSOLICITED))" by simp
  then have "distinct (map snd CALL_IDS @ map fst UNSOLICITED)" by (rule distinct_map [THEN iffD1, THEN conjunct1])
  moreover have "set (map unat (map snd CALL_IDS @ map fst UNSOLICITED)) = {1..456}"
    using mset_eq_setD [OF m] by (auto simp del: upt_rec_numeral)
  ultimately show ?thesis
    using call_ids_sorted indications.increasing by (simp only: list.set_map simp_thms)
qed

text \<open>The codes written into \<open>modem.rs\<close> and \<open>transport.rs\<close> are those of the tables: every command
  constant has the firmware name it is called after, and so have the two indications that are
  recognised.\<close>

theorem command_names:
  "map (call_name \<circ> raw_id)
     [UTA_MS_SIM_OPEN_REQ, UTA_MS_SMS_INIT, UTA_MS_CBS_INIT, UTA_MS_NET_OPEN, UTA_MS_CALL_CS_INIT,
      UTA_MS_CALL_PS_INITIALIZE, UTA_MS_SS_INIT, UTA_MS_CALL_PS_ATTACH_APN_CONFIG_REQ,
      UTA_MS_NET_ATTACH_REQ, UTA_MS_CALL_PS_GET_NEG_IP_ADDR_REQ,
      UTA_MS_CALL_PS_GET_NEGOTIATED_DNS_REQ, UTA_MS_CALL_PS_CONNECT_REQ,
      UTA_RPC_PS_CONNECT_TO_DATACHANNEL_REQ, UTA_RPC_PS_CONNECT_SETUP_REQ, UTA_MODE_SET_REQ,
      UTA_SYS_GET_INFO, CSI_FCC_LOCK_QUERY_REQ, CSI_FCC_LOCK_GEN_CHALLENGE_REQ,
      CSI_FCC_LOCK_VER_CHALLENGE_REQ] =
   map Some
     [''UtaMsSimOpenReq'', ''UtaMsSmsInit'', ''UtaMsCbsInit'', ''UtaMsNetOpen'', ''UtaMsCallCsInit'',
      ''UtaMsCallPsInitialize'', ''UtaMsSsInit'', ''UtaMsCallPsAttachApnConfigReq'',
      ''UtaMsNetAttachReq'', ''UtaMsCallPsGetNegIpAddrReq'',
      ''UtaMsCallPsGetNegotiatedDnsReq'', ''UtaMsCallPsConnectReq'',
      ''UtaRPCPsConnectToDatachannelReq'', ''UtaRPCPSConnectSetupReq'', ''UtaModeSetReq'',
      ''UtaSysGetInfo'', ''CsiFccLockQueryReq'', ''CsiFccLockGenChallengeReq'',
      ''CsiFccLockVerChallengeReq''] \<and>
   unsolicited_name UTA_MS_NET_IS_ATTACH_ALLOWED_IND_CB = Some ''UtaMsNetIsAttachAllowedIndCb'' \<and>
   unsolicited_name UTA_MODE_SET_RSP_CB = Some ''UtaModeSetRspCb''"
  (is "?commands \<and> _ \<and> _")
proof (intro conjI)
  note known = map_of_is_SomeI [OF indications.distinct_keys]
  show "unsolicited_name UTA_MS_NET_IS_ATTACH_ALLOWED_IND_CB = Some ''UtaMsNetIsAttachAllowedIndCb''"
    "unsolicited_name UTA_MODE_SET_RSP_CB = Some ''UtaModeSetRspCb''"
    unfolding unsolicited_name_def indications.search_map_of UTA_MS_NET_IS_ATTACH_ALLOWED_IND_CB_def
      UTA_MODE_SET_RSP_CB_def
    by (rule known, simp only: UNSOLICITED_def list.set insert_iff simp_thms)+
  show "?commands"
    using named_calls unfolding command_defs
    by (simp only: call_name_iff [symmetric] list.set ball_simps prod.case simp_thms list.map comp_def
        raw_id.simps insert_iff)
qed

end
